theory Spec2Isabelle
  imports Complex_Main "HOL-Library.Word"
begin

section \<open>Values, tensors and images\<close>

text \<open>
  The program computes on float32 arrays. An element is modelled as an exact real number
  or one of the IEEE special values that the program's own divisions can create; rounding,
  overflow and the sign of zero are not modelled.
\<close>

datatype fval = Fin real | PInf | NInf | NaN

fun fneg :: "fval \<Rightarrow> fval" where
  "fneg (Fin a) = Fin (- a)"
| "fneg PInf = NInf"
| "fneg NInf = PInf"
| "fneg NaN = NaN"

fun fadd :: "fval \<Rightarrow> fval \<Rightarrow> fval" where
  "fadd (Fin a) (Fin b) = Fin (a + b)"
| "fadd NaN y = NaN"
| "fadd x NaN = NaN"
| "fadd PInf NInf = NaN"
| "fadd NInf PInf = NaN"
| "fadd PInf y = PInf"
| "fadd x PInf = PInf"
| "fadd NInf y = NInf"
| "fadd x NInf = NInf"

definition fsub :: "fval \<Rightarrow> fval \<Rightarrow> fval" where
  "fsub x y = fadd x (fneg y)"

text \<open>An infinity of the sign of \<open>a\<close> times the sign of \<open>pos\<close>; \<open>0 * inf\<close> is NaN.\<close>

definition signed_inf :: "real \<Rightarrow> bool \<Rightarrow> fval" where
  "signed_inf a pos = (if a = 0 then NaN else if (0 < a) = pos then PInf else NInf)"

fun fmul :: "fval \<Rightarrow> fval \<Rightarrow> fval" where
  "fmul (Fin a) (Fin b) = Fin (a * b)"
| "fmul NaN y = NaN"
| "fmul x NaN = NaN"
| "fmul (Fin a) PInf = signed_inf a True"
| "fmul (Fin a) NInf = signed_inf a False"
| "fmul PInf (Fin b) = signed_inf b True"
| "fmul NInf (Fin b) = signed_inf b False"
| "fmul PInf PInf = PInf"
| "fmul NInf NInf = PInf"
| "fmul PInf NInf = NInf"
| "fmul NInf PInf = NInf"

text \<open>
  Tensor division never raises: \<open>0 / 0\<close> is NaN and \<open>x / 0\<close> an infinity of the sign
  of \<open>x\<close> (the divisor zero counts as \<open>+0\<close>).
\<close>

fun fdiv :: "fval \<Rightarrow> fval \<Rightarrow> fval" where
  "fdiv (Fin a) (Fin b) =
     (if b = 0 then (if a = 0 then NaN else if 0 < a then PInf else NInf) else Fin (a / b))"
| "fdiv NaN y = NaN"
| "fdiv x NaN = NaN"
| "fdiv (Fin a) PInf = Fin 0"
| "fdiv (Fin a) NInf = Fin 0"
| "fdiv PInf (Fin b) = (if 0 \<le> b then PInf else NInf)"
| "fdiv NInf (Fin b) = (if 0 \<le> b then NInf else PInf)"
| "fdiv PInf PInf = NaN"
| "fdiv PInf NInf = NaN"
| "fdiv NInf PInf = NaN"
| "fdiv NInf NInf = NaN"

fun fabs :: "fval \<Rightarrow> fval" where
  "fabs (Fin a) = Fin \<bar>a\<bar>"
| "fabs PInf = PInf"
| "fabs NInf = PInf"
| "fabs NaN = NaN"

text \<open>The comparison \<open>x <= y\<close> of floats: false as soon as one side is NaN.\<close>

fun fle :: "fval \<Rightarrow> fval \<Rightarrow> bool" where
  "fle (Fin a) (Fin b) = (a \<le> b)"
| "fle NaN y = False"
| "fle x NaN = False"
| "fle NInf y = True"
| "fle x PInf = True"
| "fle PInf y = False"
| "fle x NInf = False"

text \<open>\<open>torch.min\<close> and \<open>torch.max\<close> of two tensors, on one element: a NaN on either side is
  the result.\<close>

fun fmin :: "fval \<Rightarrow> fval \<Rightarrow> fval" where
  "fmin NaN y = NaN"
| "fmin x NaN = NaN"
| "fmin x y = (if fle x y then x else y)"

fun fmax :: "fval \<Rightarrow> fval \<Rightarrow> fval" where
  "fmax NaN y = NaN"
| "fmax x NaN = NaN"
| "fmax x y = (if fle x y then y else x)"

definition fsum :: "fval list \<Rightarrow> fval" where
  "fsum xs = foldl fadd (Fin 0) xs"

text \<open>\<open>torch.mean\<close>: the sum over the number of elements; of no element it is \<open>0 / 0\<close>.\<close>

definition fmean :: "fval list \<Rightarrow> fval" where
  "fmean xs = fdiv (fsum xs) (Fin (real (length xs)))"

text \<open>A tensor of the network: batch, channel, height, width. An image of numpy and
  OpenCV: height, width, channel.\<close>

type_synonym tensor4 = "fval list list list list"
type_synonym image = "fval list list list"

definition map4 :: "('a \<Rightarrow> 'b) \<Rightarrow> 'a list list list list \<Rightarrow> 'b list list list list" where
  "map4 f t = map (map (map (map f))) t"

text \<open>The tensor of a given shape with one value everywhere.\<close>

definition const4 :: "nat \<Rightarrow> nat \<Rightarrow> nat \<Rightarrow> nat \<Rightarrow> 'a \<Rightarrow> 'a list list list list" where
  "const4 n c h w v = replicate n (replicate c (replicate h (replicate w v)))"

definition flatten4 :: "'a list list list list \<Rightarrow> 'a list" where
  "flatten4 t = concat (concat (concat t))"

text \<open>The working tensor: its values, the gradient accumulated by \<open>backward\<close> (\<open>None\<close>
  before the first one) and the \<open>requires_grad\<close> flag.\<close>

record wtensor =
  data :: tensor4
  grad :: "tensor4 option"
  requires_grad :: bool

section \<open>Spatial jitter\<close>

text \<open>\<open>torch.roll\<close> along one axis: the element at index \<open>i\<close> moves to index
  \<open>(i + shift) mod n\<close>; an axis of length 0 is returned as it is.\<close>

definition roll1 :: "int \<Rightarrow> 'a list \<Rightarrow> 'a list" where
  "roll1 shift xs =
     (if xs = [] then [] else rotate (nat ((- shift) mod int (length xs))) xs)"

text \<open>\<open>torch.roll(tensor, shifts=(h_shift, w_shift), dims=(2, 3))\<close>.\<close>

definition roll_hw :: "int \<Rightarrow> int \<Rightarrow> 'a list list list list \<Rightarrow> 'a list list list list" where
  "roll_hw h_shift w_shift t = map (map (\<lambda>plane. roll1 h_shift (map (roll1 w_shift) plane))) t"

definition random_circular_spatial_shift :: "wtensor \<Rightarrow> int \<Rightarrow> int \<Rightarrow> bool \<Rightarrow> wtensor" where
  "random_circular_spatial_shift tensor h_shift w_shift should_undo =
     (let h_shift = (if should_undo then - h_shift else h_shift);
          w_shift = (if should_undo then - w_shift else w_shift);
          rolled = \<lparr>data = roll_hw h_shift w_shift (data tensor), grad = None,
                    requires_grad = True\<rparr>
      in rolled)"

section \<open>Errors\<close>

text \<open>
  What the program can raise: the \<open>Exception\<close> of \<open>load_image\<close> for a missing path,
  Python's own errors, \<open>cv2.error\<close> of OpenCV and \<open>RuntimeError\<close> of torch. The program
  defines no exception class of its own and validates no configuration value.
\<close>

datatype error =
  PathDoesNotExist | TypeError | ValueError | AttributeError | IndexError | ZeroDivisionError
  | CvError | RuntimeError

section \<open>Image pyramid\<close>

definition height :: "'a list list list \<Rightarrow> nat" where
  "height img = length img"

definition width :: "'a list list list \<Rightarrow> nat" where
  "width img = (case img of [] \<Rightarrow> 0 | row # _ \<Rightarrow> length row)"

definition channels :: "'a list list list \<Rightarrow> nat" where
  "channels img = (case img of [] \<Rightarrow> 0 | row # _ \<Rightarrow> (case row of [] \<Rightarrow> 0 | px # _ \<Rightarrow> length px))"

text \<open>\<open>cvRound\<close>, which OpenCV's \<open>saturate_cast<int>\<close> applies to a double: the nearest
  integer, a tie going to the even one.\<close>

definition cv_round :: "real \<Rightarrow> int" where
  "cv_round x =
     (let f = \<lfloor>x\<rfloor>; d = x - of_int f
      in if d < 1 / 2 then f else if 1 / 2 < d then f + 1 else if even f then f else f + 1)"

text \<open>
  The interpolation of \<open>cv.resize\<close> is OpenCV's: it is a parameter that gives the value at
  a row, column and channel of the target from the source and the target's height and
  width.
\<close>

type_synonym 'a interp = "'a list list list \<Rightarrow> nat \<Rightarrow> nat \<Rightarrow> nat \<Rightarrow> nat \<Rightarrow> nat \<Rightarrow> 'a"

definition resample :: "'a interp \<Rightarrow> 'a list list list \<Rightarrow> nat \<Rightarrow> nat \<Rightarrow> 'a list list list" where
  "resample ip src h w =
     map (\<lambda>r. map (\<lambda>c. map (\<lambda>ch. ip src h w r c ch) [0..<channels src]) [0..<w]) [0..<h]"

text \<open>
  \<open>cv.resize(src, dsize, fx, fy)\<close>, with \<open>dsize = (width, height)\<close>: the source must not
  be empty; an empty \<open>dsize\<close> (as \<open>(0, 0)\<close>) is computed from positive factors by
  rounding and must not be empty either. Each failed assertion raises \<open>cv2.error\<close>.
\<close>

definition cv_resize ::
  "'a interp \<Rightarrow> 'a list list list \<Rightarrow> int \<times> int \<Rightarrow> real \<Rightarrow> real \<Rightarrow> error + 'a list list list" where
  "cv_resize ip src dsize fx fy =
     (if height src = 0 \<or> width src = 0 then Inl CvError
      else if fst dsize \<le> 0 \<or> snd dsize \<le> 0 then
        (if fx \<le> 0 \<or> fy \<le> 0 then Inl CvError
         else
           let w = cv_round (real (width src) * fx); h = cv_round (real (height src) * fy)
           in if w \<le> 0 \<or> h \<le> 0 then Inl CvError else Inr (resample ip src (nat h) (nat w)))
      else Inr (resample ip src (nat (snd dsize)) (nat (fst dsize))))"

text \<open>The loop of \<open>create_image_pyramid\<close>: \<open>n\<close> iterations are left, each appends the
  resized last entry.\<close>

fun pyramid_loop :: "'a interp \<Rightarrow> real \<Rightarrow> nat \<Rightarrow> 'a list list list list \<Rightarrow> error + 'a list list list list" where
  "pyramid_loop ip octave_scale 0 img_pyramid = Inr img_pyramid"
| "pyramid_loop ip octave_scale (Suc n) img_pyramid =
     (case cv_resize ip (last img_pyramid) (0, 0) octave_scale octave_scale of
        Inl e \<Rightarrow> Inl e
      | Inr im \<Rightarrow> pyramid_loop ip octave_scale n (img_pyramid @ [im]))"

text \<open>\<open>range(num_octaves - 1)\<close> runs \<open>num_octaves - 1\<close> times, and not at all when that
  is zero or negative.\<close>

definition create_image_pyramid ::
  "'a interp \<Rightarrow> 'a list list list \<Rightarrow> int \<Rightarrow> real \<Rightarrow> error + 'a list list list list" where
  "create_image_pyramid ip img num_octaves octave_scale =
     pyramid_loop ip octave_scale (nat (num_octaves - 1)) [img]"

text \<open>Nearest-neighbour sampling, one interpolation \<open>cv.resize\<close> offers; the concrete
  evaluations below use it.\<close>

definition nearest :: "'a interp" where
  "nearest src h w r c ch = src ! (r * height src div h) ! (c * width src div w) ! ch"

definition black_pixel :: "fval list" where
  "black_pixel = [Fin 0, Fin 0, Fin 0]"

text \<open>An image of the given height and width, every value 0.\<close>

definition black :: "nat \<Rightarrow> nat \<Rightarrow> image" where
  "black h w = replicate h (replicate w black_pixel)"

section \<open>Loading an image\<close>












section \<open>Gradient smoothing\<close>

text \<open>
  The constructor of \<open>GaussianSmoothing\<close> rebinds and updates the variable \<open>kernel\<close>,
  first the int \<open>1\<close> and then a tensor: \<open>kernel *= t\<close> on the int makes a new tensor,
  and on a tensor it multiplies that tensor in place. The list \<open>kernels\<close> holds references,
  so the store of tensor objects is explicit.
\<close>

type_synonym kernel2 = "real list list"

datatype pyval = PyInt int | TensorRef nat

record init_state =
  store :: "kernel2 list"
  kernel :: pyval
  kernels :: "pyval list"

text \<open>\<open>torch.meshgrid\<close> of two \<open>arange(size)\<close>: the row index and the column index.\<close>

definition meshgrids :: "nat \<Rightarrow> kernel2 list" where
  "meshgrids ksize =
     [map (\<lambda>i. map (\<lambda>j. real i) [0..<ksize]) [0..<ksize],
      map (\<lambda>i. map (\<lambda>j. real j) [0..<ksize]) [0..<ksize]]"

text \<open>
  The factor of one dimension,
  \<open>1 / (std * math.sqrt(2 * math.pi)) * torch.exp(-((mgrid - mean) / std) ** 2 / 2)\<close>:
  the first division is Python's and raises on a zero divisor.
\<close>

definition gauss1d :: "nat \<Rightarrow> real \<Rightarrow> real \<Rightarrow> real" where
  "gauss1d ksize std x =
     (let mean = (real ksize - 1) / 2
      in 1 / (std * sqrt (2 * pi)) * exp (- (((x - mean) / std) ^ 2) / 2))"

definition gauss_factor :: "nat \<Rightarrow> real \<Rightarrow> kernel2 \<Rightarrow> error + kernel2" where
  "gauss_factor ksize std mgrid =
     (if std * sqrt (2 * pi) = 0 then Inl ZeroDivisionError
      else Inr (map (map (gauss1d ksize std)) mgrid))"

definition imul :: "init_state \<Rightarrow> kernel2 \<Rightarrow> init_state" where
  "imul st g =
     (case kernel st of
        PyInt n \<Rightarrow>
          st\<lparr>store := store st @ [map (map (\<lambda>x. real_of_int n * x)) g],
             kernel := TensorRef (length (store st))\<rparr>
      | TensorRef a \<Rightarrow>
          st\<lparr>store := (store st)[a := map2 (map2 (*)) (store st ! a) g]\<rparr>)"

text \<open>The inner loop, over \<open>zip(kernel_size, sigma, meshgrids)\<close>; the append is inside
  it.\<close>

fun dims_loop :: "(nat \<times> real \<times> kernel2) list \<Rightarrow> init_state \<Rightarrow> error + init_state" where
  "dims_loop [] st = Inr st"
| "dims_loop ((ksize, std, mgrid) # rest) st =
     (case gauss_factor ksize std mgrid of
        Inl e \<Rightarrow> Inl e
      | Inr g \<Rightarrow>
          let st1 = imul st g;
              st2 = st1\<lparr>kernels := kernels st1 @ [kernel st1]\<rparr>
          in dims_loop rest st2)"

text \<open>The outer loop, \<open>for s in sigmas\<close>, with \<open>sigma = [s, s]\<close>.\<close>

fun sigmas_loop :: "real list \<Rightarrow> nat list \<Rightarrow> kernel2 list \<Rightarrow> init_state \<Rightarrow> error + init_state" where
  "sigmas_loop [] kernel_size mgs st = Inr st"
| "sigmas_loop (s # ss) kernel_size mgs st =
     (case dims_loop (zip kernel_size (zip [s, s] mgs)) st of
        Inl e \<Rightarrow> Inl e
      | Inr st' \<Rightarrow> sigmas_loop ss kernel_size mgs st')"

text \<open>
  One round of the second loop: \<open>kernel / torch.sum(kernel)\<close> makes a new tensor, which
  \<open>view\<close> and \<open>repeat\<close> shape to \<open>channels x 1 x size x size\<close>. No entry of \<open>kernels\<close>
  is an int; \<open>torch.sum\<close> of one would raise.
\<close>

definition prepare_kernel :: "kernel2 list \<Rightarrow> nat \<Rightarrow> pyval \<Rightarrow> error + kernel2 list list" where
  "prepare_kernel sto chans v =
     (case v of
        PyInt n \<Rightarrow> Inl TypeError
      | TensorRef a \<Rightarrow>
          let k = sto ! a; total = sum_list (concat k)
          in Inr (replicate chans [map (map (\<lambda>x. x / total)) k]))"

fun prepare_loop :: "kernel2 list \<Rightarrow> nat \<Rightarrow> pyval list \<Rightarrow> error + kernel2 list list list" where
  "prepare_loop sto chans [] = Inr []"
| "prepare_loop sto chans (v # vs) =
     (case prepare_kernel sto chans v of
        Inl e \<Rightarrow> Inl e
      | Inr w \<Rightarrow>
          (case prepare_loop sto chans vs of
             Inl e \<Rightarrow> Inl e
           | Inr ws \<Rightarrow> Inr (w # ws)))"

record gaussian_smoothing =
  pad :: nat
  weight1 :: "kernel2 list list"
  weight2 :: "kernel2 list list"
  weight3 :: "kernel2 list list"
  groups :: nat

text \<open>\<open>GaussianSmoothing.__init__\<close>, for a kernel size that is one number.\<close>

definition GaussianSmoothing_init :: "nat \<Rightarrow> nat \<Rightarrow> real \<Rightarrow> error + gaussian_smoothing" where
  "GaussianSmoothing_init chans kernel_size sigma =
     (let pad = kernel_size div 2;
          kernel_size = [kernel_size, kernel_size];
          sigmas = [0.5 * sigma, 1.0 * sigma, 2.0 * sigma];
          st = \<lparr>store = [], kernel = PyInt 1, kernels = []\<rparr>
      in case sigmas_loop sigmas kernel_size (meshgrids (hd kernel_size)) st of
           Inl e \<Rightarrow> Inl e
         | Inr st' \<Rightarrow>
             (case prepare_loop (store st') chans (kernels st') of
                Inl e \<Rightarrow> Inl e
              | Inr prepared_kernels \<Rightarrow>
                  if length prepared_kernels < 3 then Inl IndexError
                  else Inr \<lparr>pad = pad, weight1 = prepared_kernels ! 0,
                             weight2 = prepared_kernels ! 1, weight3 = prepared_kernels ! 2,
                             groups = chans\<rparr>))"

text \<open>Reflect padding of one axis by \<open>p\<close> on both sides: the border element is not
  repeated.\<close>

definition reflect_pad1 :: "nat \<Rightarrow> 'a list \<Rightarrow> 'a list" where
  "reflect_pad1 p xs = rev (take p (drop 1 xs)) @ xs @ take p (drop 1 (rev xs))"

text \<open>
  \<open>F.pad(input, (pad, pad, pad, pad), mode='reflect')\<close> pads the last two axes and raises
  unless the padding is smaller than both of them. (A batch of no image has no plane here,
  and passes.)
\<close>

definition pad_reflect :: "nat \<Rightarrow> tensor4 \<Rightarrow> error + tensor4" where
  "pad_reflect p t =
     (if list_all (list_all (\<lambda>plane. p < length plane \<and> list_all (\<lambda>row. p < length row) plane)) t
      then Inr (map (map (\<lambda>plane. reflect_pad1 p (map (reflect_pad1 p) plane))) t)
      else Inl RuntimeError)"

definition plane_width :: "'a list list \<Rightarrow> nat" where
  "plane_width plane = (case plane of [] \<Rightarrow> 0 | row # _ \<Rightarrow> length row)"

text \<open>The cross-correlation of one plane with one kernel, no padding, stride 1: the
  output at \<open>(i, j)\<close> is the sum of the products of the kernel with the window at
  \<open>(i, j)\<close>.\<close>

definition conv_plane :: "kernel2 \<Rightarrow> fval list list \<Rightarrow> fval list list" where
  "conv_plane k plane =
     (let kh = length k; kw = plane_width k
      in map (\<lambda>i. map (\<lambda>j.
                fsum (concat (map2 (\<lambda>krow prow. map2 (\<lambda>w x. fmul (Fin w) x) krow (take kw (drop j prow)))
                                k (take kh (drop i plane)))))
              [0..<plane_width plane + 1 - kw])
           [0..<length plane + 1 - kh])"

text \<open>
  \<open>F.conv2d(input, weight=w, groups=groups)\<close> for a weight of shape
  \<open>groups x 1 x kh x kw\<close>: channel \<open>c\<close> is convolved with kernel \<open>c\<close>. It raises when the
  channels of the input are not \<open>groups\<close>, when the kernel is empty or larger than a plane.
\<close>

definition conv2d_depthwise :: "kernel2 list list \<Rightarrow> nat \<Rightarrow> tensor4 \<Rightarrow> error + tensor4" where
  "conv2d_depthwise w grps t =
     (if length w = grps \<and> list_all (\<lambda>im. length im = grps) t \<and>
         list_all (\<lambda>wc. length wc = 1 \<and> 0 < length (wc ! 0) \<and> 0 < plane_width (wc ! 0)) w \<and>
         list_all (\<lambda>im. list_all (\<lambda>(wc, plane).
              length (wc ! 0) \<le> length plane \<and>
              list_all (\<lambda>row. plane_width (wc ! 0) \<le> length row) plane) (zip w im)) t
      then Inr (map (\<lambda>im. map2 (\<lambda>wc plane. conv_plane (wc ! 0) plane) w im) t)
      else Inl RuntimeError)"

definition tadd :: "tensor4 \<Rightarrow> tensor4 \<Rightarrow> tensor4" where
  "tadd a b = map2 (map2 (map2 (map2 fadd))) a b"

definition GaussianSmoothing_forward :: "gaussian_smoothing \<Rightarrow> tensor4 \<Rightarrow> error + tensor4" where
  "GaussianSmoothing_forward self input =
     (case pad_reflect (pad self) input of
        Inl e \<Rightarrow> Inl e
      | Inr input \<Rightarrow>
          (case conv2d_depthwise (weight1 self) (groups self) input of
             Inl e \<Rightarrow> Inl e
           | Inr grad1 \<Rightarrow>
               (case conv2d_depthwise (weight2 self) (groups self) input of
                  Inl e \<Rightarrow> Inl e
                | Inr grad2 \<Rightarrow>
                    (case conv2d_depthwise (weight3 self) (groups self) input of
                       Inl e \<Rightarrow> Inl e
                     | Inr grad3 \<Rightarrow> Inr (tadd (tadd grad1 grad2) grad3)))))"

text \<open>
  What the specification describes: the normalized 2-D Gaussian kernel of one standard
  deviation, the product of the two 1-D Gaussians over its sum, as a depthwise weight.
\<close>

definition gaussian_kernel2d :: "nat \<Rightarrow> real \<Rightarrow> kernel2" where
  "gaussian_kernel2d ksize std =
     (let k = map (\<lambda>i. map (\<lambda>j. gauss1d ksize std (real i) * gauss1d ksize std (real j))
                     [0..<ksize]) [0..<ksize]
      in map (map (\<lambda>x. x / sum_list (concat k))) k)"

text \<open>
  The one tensor that the constructor builds: every \<open>kernel *= ...\<close> after the first
  multiplies it in place, so it ends as the product of the six factors.
\<close>

definition product_kernel :: "nat \<Rightarrow> real \<Rightarrow> kernel2" where
  "product_kernel ksize sigma =
     map (\<lambda>i. map (\<lambda>j.
            gauss1d ksize (0.5 * sigma) (real i) * gauss1d ksize (0.5 * sigma) (real j) *
            gauss1d ksize (1.0 * sigma) (real i) * gauss1d ksize (1.0 * sigma) (real j) *
            gauss1d ksize (2.0 * sigma) (real i) * gauss1d ksize (2.0 * sigma) (real j))
          [0..<ksize]) [0..<ksize]"

definition kernel_normalized :: "kernel2 \<Rightarrow> kernel2" where
  "kernel_normalized k = map (map (\<lambda>x. x / sum_list (concat k))) k"

definition gaussian_weight :: "nat \<Rightarrow> nat \<Rightarrow> real \<Rightarrow> kernel2 list list" where
  "gaussian_weight chans ksize std = replicate chans [gaussian_kernel2d ksize std]"

section \<open>Gradient ascent step\<close>

definition IMAGENET_MEAN_1 :: "real list" where
  "IMAGENET_MEAN_1 = [0.485, 0.456, 0.406]"

definition IMAGENET_STD_1 :: "real list" where
  "IMAGENET_STD_1 = [0.229, 0.224, 0.225]"

text \<open>The bounds, of shape \<open>1 x 3 x 1 x 1\<close>: one value for each channel.\<close>

definition lower_bound :: "fval list" where
  "lower_bound = map2 (\<lambda>m s. Fin (- m / s)) IMAGENET_MEAN_1 IMAGENET_STD_1"

definition upper_bound :: "fval list" where
  "upper_bound = map2 (\<lambda>m s. Fin ((1 - m) / s)) IMAGENET_MEAN_1 IMAGENET_STD_1"

definition KERNEL_SIZE :: nat where
  "KERNEL_SIZE = 9"

text \<open>
  The network is outside the program. \<open>net_forward\<close> gives the activations by name
  (or fails); \<open>net_backward x name g\<close> is what autograd propagates back to the input
  \<open>x\<close> from the gradient \<open>g\<close> at the activation \<open>name\<close>: the value at a batch, channel,
  row and column of \<open>x\<close>.
\<close>

record network =
  net_forward :: "tensor4 \<Rightarrow> error + (string \<Rightarrow> fval list option)"
  net_backward :: "tensor4 \<Rightarrow> string \<Rightarrow> fval list \<Rightarrow> nat \<Rightarrow> nat \<Rightarrow> nat \<Rightarrow> nat \<Rightarrow> fval"

text \<open>A tensor of the shape of \<open>t\<close>, its values given by their indices.\<close>

definition tabulate_like :: "'a list list list list \<Rightarrow> (nat \<Rightarrow> nat \<Rightarrow> nat \<Rightarrow> nat \<Rightarrow> 'b) \<Rightarrow> 'b list list list list" where
  "tabulate_like t f =
     map (\<lambda>(b, im). map (\<lambda>(c, plane). map (\<lambda>(r, row). map (\<lambda>(j, x). f b c r j)
       (enumerate 0 row)) (enumerate 0 plane)) (enumerate 0 im)) (enumerate 0 t)"

definition zeros_like :: "'a list list list list \<Rightarrow> tensor4" where
  "zeros_like t = map4 (\<lambda>x. Fin 0) t"

text \<open>\<open>torch.nn.MSELoss(reduction='sum')\<close>.\<close>

definition mse_loss_sum :: "fval list \<Rightarrow> fval list \<Rightarrow> fval" where
  "mse_loss_sum input target = fsum (map2 (\<lambda>x y. fmul (fsub x y) (fsub x y)) input target)"

definition loss_of :: "fval list \<Rightarrow> fval" where
  "loss_of layer = fdiv (mse_loss_sum layer (map (\<lambda>x. Fin 0) layer)) (Fin 2)"

text \<open>
  \<open>loss.backward()\<close> down to the activation: the division by 2 passes on half of the
  incoming gradient 1, and the sum of squared differences passes on \<open>2 * (x - y)\<close> times
  what it receives.
\<close>

definition loss_backward :: "fval list \<Rightarrow> fval list" where
  "loss_backward layer =
     (let grad_loss = Fin 1;
          grad_mse = fdiv grad_loss (Fin 2)
      in map2 (\<lambda>x y. fmul (fmul (Fin 2) (fsub x y)) grad_mse) layer (map (\<lambda>x. Fin 0) layer))"

text \<open>\<open>backward\<close> adds to the gradient the tensor already holds.\<close>

definition accumulate :: "tensor4 option \<Rightarrow> tensor4 \<Rightarrow> tensor4" where
  "accumulate old g = (case old of None \<Rightarrow> g | Some g0 \<Rightarrow> tadd g0 g)"

text \<open>\<open>torch.mean(torch.abs(smooth_grad))\<close> and \<open>smooth_grad / g_mean\<close>.\<close>

definition g_mean :: "tensor4 \<Rightarrow> fval" where
  "g_mean smooth_grad = fmean (map fabs (flatten4 smooth_grad))"

definition normalized_grad :: "tensor4 \<Rightarrow> tensor4" where
  "normalized_grad smooth_grad = map4 (\<lambda>x. fdiv x (g_mean smooth_grad)) smooth_grad"

text \<open>\<open>torch.max(torch.min(img, upper_bound), lower_bound)\<close>: the bounds are broadcast
  along the batch, the rows and the columns.\<close>

definition clamp_bounds :: "tensor4 \<Rightarrow> tensor4" where
  "clamp_bounds t =
     map (\<lambda>im. map2 (\<lambda>(lo, hi) plane. map (map (\<lambda>x. fmax (fmin x hi) lo)) plane)
                  (zip lower_bound upper_bound) im) t"

definition sigma_of :: "nat \<Rightarrow> real" where
  "sigma_of cnt = (real (cnt + 1) / 10) * 2.0 + 0.5"

text \<open>
  \<open>gradient_ascent\<close> changes \<open>img\<close> in place and returns nothing: the result is the
  tensor afterwards. \<open>backward\<close> raises for a tensor that does not require a gradient
  (the network's own parameters do not).
\<close>

definition gradient_ascent :: "network \<Rightarrow> wtensor \<Rightarrow> real \<Rightarrow> nat \<Rightarrow> error + wtensor" where
  "gradient_ascent backbone_network img lr cnt =
     (case net_forward backbone_network (data img) of
        Inl e \<Rightarrow> Inl e
      | Inr out \<Rightarrow>
          (case out ''inception4c'' of
             None \<Rightarrow> Inl AttributeError
           | Some layer \<Rightarrow>
               if \<not> requires_grad img then Inl RuntimeError
               else
                 let img = img\<lparr>grad := Some (accumulate (grad img)
                             (tabulate_like (data img)
                                (net_backward backbone_network (data img) ''inception4c''
                                   (loss_backward layer))))\<rparr>;
                     grad_data = the (grad img);
                     sigma = sigma_of cnt
                 in (case GaussianSmoothing_init 3 KERNEL_SIZE sigma of
                       Inl e \<Rightarrow> Inl e
                     | Inr smoothing \<Rightarrow>
                         (case GaussianSmoothing_forward smoothing grad_data of
                            Inl e \<Rightarrow> Inl e
                          | Inr smooth_grad \<Rightarrow>
                              let img = img\<lparr>data := tadd (data img)
                                          (map4 (fmul (Fin lr)) (normalized_grad smooth_grad))\<rparr>;
                                  img = img\<lparr>grad := Some (zeros_like grad_data)\<rparr>
                              in Inr (img\<lparr>data := clamp_bounds (data img)\<rparr>)))))"

text \<open>The value that \<open>gradient_ascent\<close> binds to \<open>smooth_grad\<close>: its lines up to the
  call of the smoothing filter.\<close>

definition smooth_grad_of :: "network \<Rightarrow> wtensor \<Rightarrow> nat \<Rightarrow> error + tensor4" where
  "smooth_grad_of backbone_network img cnt =
     (case net_forward backbone_network (data img) of
        Inl e \<Rightarrow> Inl e
      | Inr out \<Rightarrow>
          (case out ''inception4c'' of
             None \<Rightarrow> Inl AttributeError
           | Some layer \<Rightarrow>
               if \<not> requires_grad img then Inl RuntimeError
               else
                 let grad_data = accumulate (grad img)
                       (tabulate_like (data img)
                          (net_backward backbone_network (data img) ''inception4c''
                             (loss_backward layer)));
                     sigma = sigma_of cnt
                 in (case GaussianSmoothing_init 3 KERNEL_SIZE sigma of
                       Inl e \<Rightarrow> Inl e
                     | Inr smoothing \<Rightarrow> GaussianSmoothing_forward smoothing grad_data)))"

text \<open>
  A network for the concrete evaluations: its one activation is the sum of all input
  values (a linear layer of unit weights), so what it propagates back to every input value
  is the gradient at that activation.
\<close>

definition sum_network :: network where
  "sum_network =
     \<lparr>net_forward = (\<lambda>x. Inr (\<lambda>name. if name = ''inception4c'' then Some [fsum (flatten4 x)] else None)),
      net_backward = (\<lambda>x name g b c r j. case g of [] \<Rightarrow> Fin 0 | g0 # _ \<Rightarrow> g0)\<rparr>"

text \<open>A fresh working tensor of one 3-channel image with one value everywhere.\<close>

definition flat_tensor :: "nat \<Rightarrow> nat \<Rightarrow> fval \<Rightarrow> wtensor" where
  "flat_tensor h w v = \<lparr>data = const4 1 3 h w v, grad = None, requires_grad = True\<rparr>"

section \<open>Octave driver\<close>

text \<open>
  \<open>preprocess\<close>: \<open>(img - IMAGENET_MEAN_1) / IMAGENET_STD_1\<close>, the three statistics
  broadcast along the last axis, which must have three channels, or one that is repeated.
\<close>

definition preprocess :: "image \<Rightarrow> error + image" where
  "preprocess img =
     (if list_all (list_all (\<lambda>px. length px = 3)) img then
        Inr (map (map (\<lambda>px. map2 (\<lambda>x (m, s). fdiv (fsub x (Fin m)) (Fin s)) px
                               (zip IMAGENET_MEAN_1 IMAGENET_STD_1))) img)
      else if list_all (list_all (\<lambda>px. length px = 1)) img then
        Inr (map (map (\<lambda>px. map (\<lambda>(m, s). fdiv (fsub (px ! 0) (Fin m)) (Fin s))
                              (zip IMAGENET_MEAN_1 IMAGENET_STD_1))) img)
      else Inl ValueError)"

text \<open>The constants that \<open>deep_dream\<close> sets in its body (\<open>lr_dream\<close> is its \<open>lr\<close>); it has
  no other configuration.\<close>

definition pyramid_size :: int where
  "pyramid_size = 4"

definition pyramid_ratio :: real where
  "pyramid_ratio = 1 / 1.4"

definition n_iter :: nat where
  "n_iter = 10"

definition lr_dream :: real where
  "lr_dream = 0.09"

definition jitter :: int where
  "jitter = 100"

definition image_zeros_like :: "image \<Rightarrow> image" where
  "image_zeros_like img = map (map (map (\<lambda>x. Fin 0))) img"

text \<open>\<open>a + b\<close> and \<open>a - b\<close> of two arrays; at both uses in \<open>deep_dream\<close> the two have the
  same shape.\<close>

definition image_add :: "image \<Rightarrow> image \<Rightarrow> image" where
  "image_add a b = map2 (map2 (map2 fadd)) a b"

definition image_sub :: "image \<Rightarrow> image \<Rightarrow> image" where
  "image_sub a b = map2 (map2 (map2 fsub)) a b"

text \<open>\<open>ToTensor\<close> on a float array moves the channel axis to the front and scales
  nothing; \<open>unsqueeze(0)\<close> adds the batch axis.\<close>

definition to_chw :: "image \<Rightarrow> fval list list list" where
  "to_chw img = map (\<lambda>ch. map (map (\<lambda>px. px ! ch)) img) [0..<channels img]"

definition pytorch_input_adapter :: "image \<Rightarrow> wtensor" where
  "pytorch_input_adapter img = \<lparr>data = [to_chw img], grad = None, requires_grad = True\<rparr>"

text \<open>\<open>np.moveaxis(array[0], 0, 2)\<close>: the first image of the batch, channel axis last.\<close>

definition to_hwc :: "fval list list list \<Rightarrow> image" where
  "to_hwc chw =
     (case chw of
        [] \<Rightarrow> []
      | plane # _ \<Rightarrow>
          map (\<lambda>r. map (\<lambda>c. map (\<lambda>pl. pl ! r ! c) chw) [0..<plane_width plane]) [0..<length plane])"

definition pytorch_output_adapter :: "wtensor \<Rightarrow> error + image" where
  "pytorch_output_adapter img =
     (case data img of [] \<Rightarrow> Inl IndexError | chw # _ \<Rightarrow> Inr (to_hwc chw))"

text \<open>
  What is outside \<open>deep_dream\<close>: the network, the interpolation of \<open>cv.resize\<close>, and the
  random offsets, \<open>env_randint octave i\<close> being the pair that
  \<open>np.random.randint(-jitter, jitter + 1, 2)\<close> draws in iteration \<open>i\<close> of an octave.
\<close>

record dream_env =
  env_net :: network
  env_interp :: "fval interp"
  env_randint :: "nat \<Rightarrow> nat \<Rightarrow> int \<times> int"

text \<open>The inner loop, \<open>for i in range(n_iter)\<close>, over the iterations that are left.\<close>

fun iter_loop :: "dream_env \<Rightarrow> nat \<Rightarrow> nat list \<Rightarrow> wtensor \<Rightarrow> error + wtensor" where
  "iter_loop env octave [] input_tensor = Inr input_tensor"
| "iter_loop env octave (i # rest) input_tensor =
     (let (h_shift, w_shift) = env_randint env octave i;
          input_tensor = random_circular_spatial_shift input_tensor h_shift w_shift False
      in case gradient_ascent (env_net env) input_tensor lr_dream i of
           Inl e \<Rightarrow> Inl e
         | Inr input_tensor \<Rightarrow>
             iter_loop env octave rest
               (random_circular_spatial_shift input_tensor h_shift w_shift True))"

text \<open>The outer loop, over \<open>enumerate(reversed(img_pyramid))\<close>, with the variables
  \<open>detail\<close> and \<open>best_img\<close>.\<close>

fun octave_loop :: "dream_env \<Rightarrow> (nat \<times> image) list \<Rightarrow> image \<Rightarrow> image \<Rightarrow> error + image" where
  "octave_loop env [] detail best_img = Inr best_img"
| "octave_loop env ((octave, octave_base) # rest) detail best_img =
     (let h = height octave_base; w = width octave_base
      in case (if octave > 0 then cv_resize (env_interp env) detail (int w, int h) 0 0
               else Inr detail) of
           Inl e \<Rightarrow> Inl e
         | Inr detail \<Rightarrow>
             let input_img = image_add octave_base detail;
                 input_tensor = pytorch_input_adapter input_img
             in (case iter_loop env octave [0..<n_iter] input_tensor of
                   Inl e \<Rightarrow> Inl e
                 | Inr input_tensor \<Rightarrow>
                     (case pytorch_output_adapter input_tensor of
                        Inl e \<Rightarrow> Inl e
                      | Inr current_img \<Rightarrow>
                          let detail = image_sub current_img octave_base;
                              best_img = current_img
                          in octave_loop env rest detail best_img)))"

definition deep_dream :: "dream_env \<Rightarrow> image \<Rightarrow> error + image" where
  "deep_dream env img =
     (case preprocess img of
        Inl e \<Rightarrow> Inl e
      | Inr base_img \<Rightarrow>
          (case create_image_pyramid (env_interp env) base_img pyramid_size pyramid_ratio of
             Inl e \<Rightarrow> Inl e
           | Inr img_pyramid \<Rightarrow>
               let detail = image_zeros_like (last img_pyramid);
                   best_img = []
               in octave_loop env (enumerate 0 (rev img_pyramid)) detail best_img))"

text \<open>One octave of \<open>deep_dream\<close>, from the input image to \<open>current_img\<close>: the
  adapter, the inner loop and the adapter back.\<close>

definition run_octave :: "dream_env \<Rightarrow> nat \<Rightarrow> image \<Rightarrow> error + image" where
  "run_octave env octave input_img =
     (case iter_loop env octave [0..<n_iter] (pytorch_input_adapter input_img) of
        Inl e \<Rightarrow> Inl e
      | Inr input_tensor \<Rightarrow> pytorch_output_adapter input_tensor)"

text \<open>Shapes: a tensor that is \<open>n x c x h x w\<close> and an array that is \<open>h x w x c\<close>.\<close>

definition has_shape :: "'a list list list list \<Rightarrow> nat \<Rightarrow> nat \<Rightarrow> nat \<Rightarrow> nat \<Rightarrow> bool" where
  "has_shape t n c h w =
     (length t = n \<and>
      list_all (\<lambda>im. length im = c \<and>
        list_all (\<lambda>plane. length plane = h \<and> list_all (\<lambda>row. length row = w) plane) im) t)"

definition is_image :: "'a list list list \<Rightarrow> nat \<Rightarrow> nat \<Rightarrow> nat \<Rightarrow> bool" where
  "is_image img h w c =
     (length img = h \<and> list_all (\<lambda>row. length row = w \<and> list_all (\<lambda>px. length px = c) row) img)"

text \<open>An environment for the concrete evaluations: the sum network, nearest-neighbour
  resizing and no jitter.\<close>

definition still_env :: dream_env where
  "still_env = \<lparr>env_net = sum_network, env_interp = nearest, env_randint = (\<lambda>octave i. (0, 0))\<rparr>"

text \<open>The network returns its activation \<open>inception4c\<close> for every input.\<close>

definition total_network :: "network \<Rightarrow> bool" where
  "total_network nw =
     (\<forall>x. \<exists>out layer. net_forward nw x = Inr out \<and> out ''inception4c'' = Some layer)"

section \<open>Properties of the jitter\<close>

lemma roll1_length [simp]: "length (roll1 k xs) = length xs"
  by (simp add: roll1_def)

lemma roll1_inverse: "roll1 (- k) (roll1 k xs) = xs"
proof (cases "xs = []")
  case True
  then show ?thesis by (simp add: roll1_def)
next
  case False
  define n where "n = int (length xs)"
  have npos: "0 < n" using False by (simp add: n_def)
  have "(nat (k mod n) + nat ((- k) mod n)) mod length xs = nat ((k mod n + (- k) mod n) mod n)"
    using npos by (simp add: n_def nat_mod_distrib nat_add_distrib)
  also have "(k mod n + (- k) mod n) mod n = 0"
    by (simp add: mod_add_eq)
  finally have "(nat (k mod n) + nat ((- k) mod n)) mod length xs = 0" by simp
  then have "rotate (nat (k mod n) + nat ((- k) mod n)) xs = xs"
    by (metis rotate_conv_mod rotate0 id_apply)
  then show ?thesis using False
    by (simp add: roll1_def rotate_rotate n_def)
qed

lemma roll1_map: "roll1 k (map f xs) = map f (roll1 k xs)"
  by (simp add: roll1_def rotate_map)

lemma roll_hw_inverse: "roll_hw (- h) (- w) (roll_hw h w t) = t"
proof -
  have plane: "roll1 (- h) (map (roll1 (- w)) (roll1 h (map (roll1 w) p))) = p" for p :: "'a list list"
  proof -
    have "map (roll1 (- w)) (roll1 h (map (roll1 w) p)) = roll1 h (map (roll1 (- w)) (map (roll1 w) p))"
      by (simp add: roll1_map)
    also have "map (roll1 (- w)) (map (roll1 w) p) = p"
      by (simp add: roll1_inverse map_idI)
    finally show ?thesis by (simp add: roll1_inverse)
  qed
  show ?thesis
    by (simp add: roll_hw_def plane map_idI)
qed

text \<open>
  C2. For every 4-dimensional tensor and all offsets, the cyclic shift followed by the same
  operation with \<open>should_undo\<close> gives back the values of the original tensor, element for
  element.
\<close>

theorem shift_undo_roundtrip:
  "data (random_circular_spatial_shift (random_circular_spatial_shift t dh dw False) dh dw True)
     = data t"
  by (simp add: random_circular_spatial_shift_def roll_hw_inverse)

section \<open>Properties of the pyramid builder\<close>

lemma pyramid_loop_length:
  "pyramid_loop ip s n pyr = Inr res \<Longrightarrow> length res = length pyr + n"
  by (induction n arbitrary: pyr) (auto split: sum.splits)

lemma pyramid_loop_prefix:
  "pyramid_loop ip s n pyr = Inr res \<Longrightarrow> take (length pyr) res = pyr"
proof (induction n arbitrary: pyr)
  case 0
  then show ?case by simp
next
  case (Suc n)
  then obtain im where im: "cv_resize ip (last pyr) (0, 0) s s = Inr im"
    and rest: "pyramid_loop ip s n (pyr @ [im]) = Inr res"
    by (auto split: sum.splits)
  from Suc.IH [OF rest] have "take (Suc (length pyr)) res = pyr @ [im]" by simp
  then have "take (length pyr) (take (Suc (length pyr)) res) = take (length pyr) (pyr @ [im])"
    by simp
  then show ?case by (simp add: min_def)
qed

lemma pyramid_loop_step:
  "pyramid_loop ip s n pyr = Inr res \<Longrightarrow> pyr \<noteq> [] \<Longrightarrow> length pyr \<le> k \<Longrightarrow>
   k < length pyr + n \<Longrightarrow> cv_resize ip (res ! (k - 1)) (0, 0) s s = Inr (res ! k)"
proof (induction n arbitrary: pyr)
  case 0
  then show ?case by simp
next
  case (Suc n)
  then obtain im where im: "cv_resize ip (last pyr) (0, 0) s s = Inr im"
    and rest: "pyramid_loop ip s n (pyr @ [im]) = Inr res"
    by (auto split: sum.splits)
  have pre: "take (Suc (length pyr)) res = pyr @ [im]"
    using pyramid_loop_prefix [OF rest] by simp
  show ?case
  proof (cases "k = length pyr")
    case True
    have "res ! k = (take (Suc (length pyr)) res) ! k" using True by simp
    also have "\<dots> = im" using True by (simp add: pre)
    finally have rk: "res ! k = im" .
    have "res ! (k - 1) = (take (Suc (length pyr)) res) ! (k - 1)" using True Suc.prems by simp
    also have "\<dots> = last pyr" using True Suc.prems
      by (simp add: pre nth_append last_conv_nth)
    finally show ?thesis using im rk by simp
  next
    case False
    then show ?thesis using Suc.IH [OF rest] Suc.prems by simp
  qed
qed

lemma cv_round_near: "\<bar>real_of_int (cv_round x) - x\<bar> \<le> 1 / 2"
proof -
  have "of_int \<lfloor>x\<rfloor> \<le> x" "x < of_int \<lfloor>x\<rfloor> + 1" by linarith+
  then show ?thesis
    unfolding cv_round_def Let_def by (simp add: abs_le_iff)
qed

lemma height_resample [simp]: "height (resample ip src h w) = h"
  by (simp add: height_def resample_def)

lemma width_resample [simp]: "0 < h \<Longrightarrow> width (resample ip src h w) = w"
  by (simp add: width_def resample_def upt_conv_Cons)

lemma cv_resize_scaled_shape:
  assumes "cv_resize ip src (0, 0) fx fy = Inr im"
  shows "\<bar>real (height im) - real (height src) * fy\<bar> \<le> 1 / 2 \<and>
         \<bar>real (width im) - real (width src) * fx\<bar> \<le> 1 / 2 \<and> 0 < height im \<and> 0 < width im"
proof -
  define w where "w = cv_round (real (width src) * fx)"
  define h where "h = cv_round (real (height src) * fy)"
  from assms have pos: "0 < w" "0 < h" and im: "im = resample ip src (nat h) (nat w)"
    by (auto simp: cv_resize_def Let_def w_def h_def split: if_splits)
  have "real (height im) = real_of_int h" "real (width im) = real_of_int w"
    using pos by (simp_all add: im)
  then show ?thesis
    using pos cv_round_near [of "real (height src) * fy"] cv_round_near [of "real (width src) * fx"]
    by (simp add: im w_def h_def)
qed

lemma height_black [simp]: "height (black h w) = h"
  by (simp add: height_def black_def)

lemma width_black [simp]: "0 < h \<Longrightarrow> width (black h w) = w"
  by (cases h) (simp_all add: width_def black_def)

lemma cv_round_values [simp]:
  "cv_round (3 / 10) = 0" "cv_round (21 / 10) = 2" "cv_round (14 / 10) = 1"
  by (simp_all add: cv_round_def Let_def)

text \<open>
  C10. With \<open>num_octaves <= 1\<close> (zero and negative values too) the pyramid builder does not
  fail and returns the one-element sequence of the input image; whenever it returns, the
  sequence has \<open>max(num_octaves, 1)\<close> entries, so never none.
\<close>

theorem pyramid_few_octaves:
  "(num_octaves \<le> 1 \<longrightarrow> create_image_pyramid ip img num_octaves s = Inr [img]) \<and>
   (create_image_pyramid ip img num_octaves s = Inr pyr \<longrightarrow>
      length pyr = nat (max num_octaves 1) \<and> pyr \<noteq> [])"
proof (intro conjI impI)
  assume "num_octaves \<le> 1"
  then show "create_image_pyramid ip img num_octaves s = Inr [img]"
    by (simp add: create_image_pyramid_def)
next
  assume r: "create_image_pyramid ip img num_octaves s = Inr pyr"
  then have "length pyr = 1 + nat (num_octaves - 1)"
    using pyramid_loop_length [of ip s "nat (num_octaves - 1)" "[img]" pyr]
    by (simp add: create_image_pyramid_def)
  then show len: "length pyr = nat (max num_octaves 1)" by (auto simp: max_def)
  show "pyr \<noteq> []" using len by (auto simp: max_def split: if_splits)
qed

theorem pyramid_few_octaves_witness:
  "(- 3 :: int) \<le> 1 \<and> create_image_pyramid nearest (black 2 2) (- 3) (7 / 10) = Inr [black 2 2] \<and>
   length [black 2 2] = nat (max (- 3) 1) \<and> [black 2 2] \<noteq> []"
  using pyramid_few_octaves [of "- 3" nearest "black 2 2" "7 / 10" "[black 2 2]"]
  by simp

text \<open>
  C6, as the code has it. \<open>cv.resize\<close> raises when a rounded target size is zero, so the
  builder does not return for every image: when it does return, for \<open>levels >= 1\<close> and a
  ratio in \<open>(0, 1)\<close>, the sequence has exactly \<open>levels\<close> entries, entry 0 is the input
  unchanged, and every later entry is the resize of the one before it by the ratio, its
  height and width within 1/2 of the previous ones times the ratio.
\<close>

theorem pyramid_levels:
  assumes "create_image_pyramid ip img levels ratio = Inr pyr"
    and "1 \<le> levels" and "0 < ratio" and "ratio < 1"
  shows "length pyr = nat levels \<and> pyr ! 0 = img \<and>
         (\<forall>k. 1 \<le> k \<and> k < nat levels \<longrightarrow>
            cv_resize ip (pyr ! (k - 1)) (0, 0) ratio ratio = Inr (pyr ! k) \<and>
            \<bar>real (height (pyr ! k)) - real (height (pyr ! (k - 1))) * ratio\<bar> \<le> 1 / 2 \<and>
            \<bar>real (width (pyr ! k)) - real (width (pyr ! (k - 1))) * ratio\<bar> \<le> 1 / 2)"
proof -
  define n where "n = nat (levels - 1)"
  have loop: "pyramid_loop ip ratio n [img] = Inr pyr"
    using assms(1) by (simp add: create_image_pyramid_def n_def)
  have len: "length pyr = nat levels"
    using pyramid_loop_length [OF loop] assms(2) by (simp add: n_def)
  have "take 1 pyr = [img]"
    using pyramid_loop_prefix [OF loop] by simp
  then have first: "pyr ! 0 = img"
    by (metis nth_take zero_less_one nth_Cons_0)
  have step: "cv_resize ip (pyr ! (k - 1)) (0, 0) ratio ratio = Inr (pyr ! k)"
    if "1 \<le> k" "k < nat levels" for k
    using pyramid_loop_step [OF loop, of k] that assms(2) by (simp add: n_def)
  show ?thesis
    using len first step cv_resize_scaled_shape by blast
qed

theorem pyramid_levels_witness:
  "create_image_pyramid nearest (black 3 3) 2 (7 / 10)
     = Inr [black 3 3, resample nearest (black 3 3) 2 2] \<and>
   length [black 3 3, resample nearest (black 3 3) 2 2] = nat 2 \<and>
   [black 3 3, resample nearest (black 3 3) 2 2] ! 0 = black 3 3 \<and>
   cv_resize nearest (black 3 3) (0, 0) (7 / 10) (7 / 10) = Inr (resample nearest (black 3 3) 2 2) \<and>
   \<bar>real (height (resample nearest (black 3 3) 2 2)) - real (height (black 3 3)) * (7 / 10)\<bar> \<le> 1 / 2"
proof -
  have run: "create_image_pyramid nearest (black 3 3) 2 (7 / 10)
     = Inr [black 3 3, resample nearest (black 3 3) 2 2]"
    by (simp add: create_image_pyramid_def cv_resize_def Let_def numeral_2_eq_2)
  have all: "length [black 3 3, resample nearest (black 3 3) 2 2] = nat 2 \<and>
      [black 3 3, resample nearest (black 3 3) 2 2] ! 0 = black 3 3 \<and>
      (\<forall>k. 1 \<le> k \<and> k < nat 2 \<longrightarrow>
         cv_resize nearest ([black 3 3, resample nearest (black 3 3) 2 2] ! (k - 1)) (0, 0)
             (7 / 10) (7 / 10)
           = Inr ([black 3 3, resample nearest (black 3 3) 2 2] ! k) \<and>
         \<bar>real (height ([black 3 3, resample nearest (black 3 3) 2 2] ! k))
            - real (height ([black 3 3, resample nearest (black 3 3) 2 2] ! (k - 1))) * (7 / 10)\<bar>
           \<le> 1 / 2 \<and>
         \<bar>real (width ([black 3 3, resample nearest (black 3 3) 2 2] ! k))
            - real (width ([black 3 3, resample nearest (black 3 3) 2 2] ! (k - 1))) * (7 / 10)\<bar>
           \<le> 1 / 2)"
    using pyramid_levels [OF run] by simp
  have k1: "1 \<le> (1::nat) \<and> (1::nat) < nat 2" by simp
  from all k1 have "cv_resize nearest ([black 3 3, resample nearest (black 3 3) 2 2] ! (1 - 1)) (0, 0)
             (7 / 10) (7 / 10)
           = Inr ([black 3 3, resample nearest (black 3 3) 2 2] ! 1) \<and>
         \<bar>real (height ([black 3 3, resample nearest (black 3 3) 2 2] ! 1))
            - real (height ([black 3 3, resample nearest (black 3 3) 2 2] ! (1 - 1))) * (7 / 10)\<bar>
           \<le> 1 / 2"
    by blast
  then show ?thesis using run all by simp
qed

theorem pyramid_levels_counterexample:
  "create_image_pyramid nearest (black 1 1) 2 (3 / 10) = Inl CvError"
  by (simp add: create_image_pyramid_def cv_resize_def Let_def numeral_2_eq_2)

section \<open>Properties of the image loader\<close>


lemma height_map_rev [simp]: "height (map (map f) img) = height img"
  by (simp add: height_def)

lemma width_map_rev [simp]: "width (map (map f) img) = width img"
  by (cases img) (simp_all add: width_def)







section \<open>Properties of the gradient normalization\<close>

lemma foldl_fadd_Fin: "foldl fadd (Fin a) (map Fin xs) = Fin (a + sum_list xs)"
  by (induction xs arbitrary: a) (simp_all add: add.assoc)

lemma fsum_Fin: "fsum (map Fin xs) = Fin (sum_list xs)"
  by (simp add: fsum_def foldl_fadd_Fin)

lemma fadd_Fin_D: "fadd x y = Fin s \<Longrightarrow> \<exists>a b. x = Fin a \<and> y = Fin b"
  by (cases x; cases y) simp_all

lemma foldl_fadd_finite:
  "foldl fadd acc xs = Fin s \<Longrightarrow> (\<exists>a. acc = Fin a) \<and> (\<exists>ys. xs = map Fin ys)"
proof (induction xs arbitrary: acc)
  case Nil
  then show ?case by simp
next
  case (Cons x xs)
  then have "foldl fadd (fadd acc x) xs = Fin s" by simp
  from Cons.IH [OF this] obtain a ys where a: "fadd acc x = Fin a" and ys: "xs = map Fin ys"
    by blast
  from fadd_Fin_D [OF a] obtain b c where "acc = Fin b" "x = Fin c" by blast
  then have "x # xs = map Fin (c # ys)" using ys by simp
  then have "\<exists>ys. x # xs = map Fin ys" by (rule exI)
  then show ?case using \<open>acc = Fin b\<close> by simp
qed

lemma fsum_finite: "fsum xs = Fin s \<Longrightarrow> \<exists>ys. xs = map Fin ys"
  using foldl_fadd_finite [of "Fin 0" xs s] by (simp add: fsum_def)

lemma fabs_finite: "map fabs xs = map Fin ys \<Longrightarrow> \<exists>zs. xs = map Fin zs \<and> ys = map abs zs"
proof (induction xs arbitrary: ys)
  case Nil
  then show ?case by simp
next
  case (Cons x xs)
  then obtain y ys' where ys: "ys = y # ys'" "fabs x = Fin y" "map fabs xs = map Fin ys'"
    by (cases ys) auto
  from Cons.IH [OF ys(3)] obtain zs where zs: "xs = map Fin zs" "ys' = map abs zs" by blast
  from ys(2) obtain z where "x = Fin z" "y = \<bar>z\<bar>" by (cases x) auto
  then have "x # xs = map Fin (z # zs) \<and> ys = map abs (z # zs)" using zs ys by simp
  then show ?case by (rule exI)
qed

lemma fmean_finite:
  assumes "fmean xs = Fin m"
  shows "\<exists>ys. xs = map Fin ys \<and> ys \<noteq> [] \<and> m = sum_list ys / real (length ys)"
proof -
  from assms obtain s where s: "fsum xs = Fin s"
    by (cases "fsum xs") (auto simp: fmean_def split: if_splits)
  then obtain ys where ys: "xs = map Fin ys" using fsum_finite by blast
  have "s = sum_list ys" using s ys by (simp add: fsum_Fin)
  then show ?thesis using assms ys
    by (auto simp: fmean_def fsum_Fin split: if_splits)
qed

lemma flatten4_map4: "flatten4 (map4 f t) = map f (flatten4 t)"
  by (simp add: flatten4_def map4_def map_concat comp_def)

lemma g_mean_finite:
  assumes "g_mean sg = Fin m"
  shows "\<exists>zs. flatten4 sg = map Fin zs \<and> zs \<noteq> [] \<and>
           m = sum_list (map abs zs) / real (length zs)"
proof -
  from assms obtain ys where ys: "map fabs (flatten4 sg) = map Fin ys" "ys \<noteq> []"
      "m = sum_list ys / real (length ys)"
    using fmean_finite unfolding g_mean_def by blast
  from fabs_finite [OF ys(1)] obtain zs where "flatten4 sg = map Fin zs" "ys = map abs zs"
    by blast
  then show ?thesis using ys by auto
qed

lemma sum_list_abs_divide:
  "sum_list (map (\<lambda>x. \<bar>x / m\<bar>) zs) = sum_list (map abs zs) / \<bar>m::real\<bar>"
  by (induction zs) (simp_all add: add_divide_distrib)

lemma sum_list_abs_divide': "(\<Sum>x\<leftarrow>zs. \<bar>x\<bar> / \<bar>m\<bar>) = sum_list (map abs zs) / \<bar>m::real\<bar>"
  using sum_list_abs_divide [of m zs] by simp

lemma sum_list_abs_zero: "sum_list (map abs zs) = (0::real) \<Longrightarrow> z \<in> set zs \<Longrightarrow> z = 0"
proof (induction zs)
  case Nil
  then show ?case by simp
next
  case (Cons a zs)
  have "0 \<le> sum_list (map abs zs)" by (rule sum_list_nonneg) auto
  with Cons.prems(1) have "\<bar>a\<bar> = 0" "sum_list (map abs zs) = 0" by simp_all
  then show ?case using Cons by auto
qed

text \<open>
  C4. When the mean absolute value of the smoothed gradient is a number other than zero,
  the gradient divided by it has mean absolute value 1 (in exact arithmetic). When it is
  exactly zero, the division raises nothing: every element of the normalized gradient is
  \<open>0 / 0\<close>, a NaN.
\<close>

theorem normalized_grad_mean:
  "(g_mean smooth_grad = Fin m \<and> m \<noteq> 0 \<longrightarrow> g_mean (normalized_grad smooth_grad) = Fin 1) \<and>
   (g_mean smooth_grad = Fin 0 \<longrightarrow>
      flatten4 smooth_grad \<noteq> [] \<and>
      flatten4 (normalized_grad smooth_grad) = replicate (length (flatten4 smooth_grad)) NaN)"
proof (intro conjI impI)
  assume a: "g_mean smooth_grad = Fin m \<and> m \<noteq> 0"
  then obtain zs where zs: "flatten4 smooth_grad = map Fin zs" "zs \<noteq> []"
      "m = sum_list (map abs zs) / real (length zs)"
    using g_mean_finite by blast
  have mpos: "0 < m"
  proof -
    have "0 \<le> sum_list (map abs zs)" by (rule sum_list_nonneg) auto
    then have "0 \<le> m" using zs by simp
    then show ?thesis using a by simp
  qed
  have "flatten4 (normalized_grad smooth_grad) = map (\<lambda>x. fdiv x (Fin m)) (map Fin zs)"
    using a zs by (simp add: normalized_grad_def flatten4_map4)
  also have "\<dots> = map Fin (map (\<lambda>x. x / m) zs)"
    using a by simp
  finally have "map fabs (flatten4 (normalized_grad smooth_grad)) = map Fin (map (\<lambda>x. \<bar>x / m\<bar>) zs)"
    by (simp add: comp_def)
  then have "g_mean (normalized_grad smooth_grad)
      = fdiv (Fin (sum_list (map (\<lambda>x. \<bar>x / m\<bar>) zs))) (Fin (real (length zs)))"
    unfolding g_mean_def fmean_def by (simp add: fsum_Fin del: map_map)
  also have "\<dots> = Fin (sum_list (map abs zs) / \<bar>m\<bar> / real (length zs))"
    using zs(2) by (simp add: sum_list_abs_divide')
  also have "sum_list (map abs zs) / \<bar>m\<bar> / real (length zs) = 1"
  proof -
    have n: "0 < real (length zs)" using zs(2) by simp
    have "sum_list (map abs zs) = m * real (length zs)" using zs(2,3) by simp
    then have "sum_list (map abs zs) / \<bar>m\<bar> / real (length zs) = m * real (length zs) / m / real (length zs)"
      using mpos by simp
    also have "\<dots> = 1" using mpos n by simp
    finally show ?thesis .
  qed
  finally show "g_mean (normalized_grad smooth_grad) = Fin 1" .
next
  assume a: "g_mean smooth_grad = Fin 0"
  then obtain zs where zs: "flatten4 smooth_grad = map Fin zs" "zs \<noteq> []"
      "0 = sum_list (map abs zs) / real (length zs)"
    using g_mean_finite by blast
  then have "sum_list (map abs zs) = 0" by simp
  then have zero: "\<forall>z\<in>set zs. z = 0" using sum_list_abs_zero by blast
  show "flatten4 smooth_grad \<noteq> []" using zs by simp
  have "flatten4 (normalized_grad smooth_grad) = map (\<lambda>x. fdiv x (Fin 0)) (map Fin zs)"
    using a zs by (simp add: normalized_grad_def flatten4_map4)
  also have "\<dots> = map (\<lambda>z. NaN) zs" using zero by simp
  also have "\<dots> = replicate (length (flatten4 smooth_grad)) NaN"
    using zs by (simp add: map_replicate_const)
  finally show "flatten4 (normalized_grad smooth_grad) = replicate (length (flatten4 smooth_grad)) NaN" .
qed

lemma g_mean_example: "g_mean [[[[Fin 1, Fin (- 3)]]]] = Fin 2"
  by (simp add: g_mean_def fmean_def fsum_def flatten4_def)

lemma g_mean_zero_example: "g_mean [[[[Fin 0, Fin 0]]]] = Fin 0"
  by (simp add: g_mean_def fmean_def fsum_def flatten4_def)

theorem normalized_grad_mean_witness:
  "g_mean [[[[Fin 1, Fin (- 3)]]]] = Fin 2 \<and> (2::real) \<noteq> 0 \<and>
   g_mean (normalized_grad [[[[Fin 1, Fin (- 3)]]]]) = Fin 1 \<and>
   g_mean [[[[Fin 0, Fin 0]]]] = Fin 0 \<and>
   flatten4 (normalized_grad [[[[Fin 0, Fin 0]]]]) = [NaN, NaN]"
  using normalized_grad_mean [of "[[[[Fin 1, Fin (- 3)]]]]" 2]
    normalized_grad_mean [of "[[[[Fin 0, Fin 0]]]]" 2]
    g_mean_example g_mean_zero_example
  by (simp add: flatten4_def numeral_2_eq_2)

section \<open>Properties of the smoothing filter\<close>

lemma gauss_factor_ok:
  "std \<noteq> 0 \<Longrightarrow> gauss_factor ksize std mgrid = Inr (map (map (gauss1d ksize std)) mgrid)"
  by (simp add: gauss_factor_def)

lemma map2_same: "map2 h (map f xs) (map g xs) = map (\<lambda>x. h (f x) (g x)) xs"
  by (induction xs) simp_all

lemma init_run:
  assumes "sigma \<noteq> 0"
  shows "sigmas_loop [0.5 * sigma, 1.0 * sigma, 2.0 * sigma] [K, K] (meshgrids K)
            \<lparr>store = [], kernel = PyInt 1, kernels = []\<rparr>
          = Inr \<lparr>store = [product_kernel K sigma], kernel = TensorRef 0,
                 kernels = replicate 6 (TensorRef 0)\<rparr>"
  using assms
  by (simp add: gauss_factor_ok meshgrids_def imul_def Let_def numeral_eq_Suc map2_same
      product_kernel_def comp_def del: zip_map_map)

lemma prepare_loop_replicate:
  "prepare_loop [k] c (replicate n (TensorRef 0)) = Inr (replicate n (replicate c [kernel_normalized k]))"
  by (induction n) (simp_all add: prepare_kernel_def kernel_normalized_def Let_def)

lemma init_result:
  assumes "sigma \<noteq> 0"
  shows "GaussianSmoothing_init c K sigma =
     Inr \<lparr>pad = K div 2,
          weight1 = replicate c [kernel_normalized (product_kernel K sigma)],
          weight2 = replicate c [kernel_normalized (product_kernel K sigma)],
          weight3 = replicate c [kernel_normalized (product_kernel K sigma)],
          groups = c\<rparr>"
  unfolding GaussianSmoothing_init_def Let_def list.sel init_run [OF assms]
  by (simp add: prepare_loop_replicate)

lemma reflect_pad1_replicate:
  "p < n \<Longrightarrow> reflect_pad1 p (replicate n x) = replicate (n + 2 * p) x"
  by (simp add: reflect_pad1_def drop_replicate min_def flip: replicate_add)

lemma map2_replicate_right:
  "length xs = n \<Longrightarrow> map2 f xs (replicate n y) = map (\<lambda>x. f x y) xs"
  by (induction xs arbitrary: n) auto

lemma sum_list_concat_scale:
  "sum_list (concat (map (map (\<lambda>w. w * c)) k)) = sum_list (concat k) * (c::real)"
  by (induction k) (simp_all add: sum_list_mult_const distrib_right)

lemma map_upt_const: "(\<And>i. i < n \<Longrightarrow> f i = v) \<Longrightarrow> map f [0..<n] = replicate n v"
  by (induction n) (simp_all add: replicate_append_same)

lemma conv_plane_const:
  assumes k: "length k = kh" "list_all (\<lambda>row. length row = kw) k" "0 < kh"
    and fit: "kh \<le> h" "kw \<le> w"
  shows "conv_plane k (replicate h (replicate w (Fin c)))
       = replicate (h + 1 - kh) (replicate (w + 1 - kw) (Fin (sum_list (concat k) * c)))"
proof -
  have pw: "plane_width k = kw"
    using k by (cases k) (simp_all add: plane_width_def)
  have hpos: "0 < h" using k fit by simp
  then have pwp: "plane_width (replicate h (replicate w (Fin c))) = w"
    by (cases h) (simp_all add: plane_width_def)
  have cell: "fsum (concat (map2 (\<lambda>krow prow. map2 (\<lambda>w x. fmul (Fin w) x) krow (take kw (drop j prow)))
                k (take kh (drop i (replicate h (replicate w (Fin c)))))))
      = Fin (sum_list (concat k) * c)"
    if "i < h + 1 - kh" "j < w + 1 - kw" for i j
  proof -
    have ik: "kh \<le> h - i" and jk: "kw \<le> w - j"
      using that fit by arith+
    have rows: "take kh (drop i (replicate h (replicate w (Fin c)))) = replicate kh (replicate w (Fin c))"
      using ik by (simp add: min_def)
    have cols: "take kw (drop j (replicate w (Fin c))) = replicate kw (Fin c)"
      using jk by (simp add: min_def)
    have "map2 (\<lambda>krow prow. map2 (\<lambda>w x. fmul (Fin w) x) krow (take kw (drop j prow)))
                k (replicate kh (replicate w (Fin c)))
         = map (\<lambda>krow. map2 (\<lambda>w x. fmul (Fin w) x) krow (replicate kw (Fin c))) k"
      using k(1) jk by (simp add: map2_replicate_right min_def)
    also have "\<dots> = map (\<lambda>krow. map (\<lambda>w. Fin (w * c)) krow) k"
      using k(2) by (auto simp: list_all_iff map2_replicate_right)
    also have "concat \<dots> = map Fin (concat (map (map (\<lambda>w. w * c)) k))"
      by (simp add: map_concat comp_def)
    finally show ?thesis
      unfolding rows by (simp only: fsum_Fin sum_list_concat_scale)
  qed
  show ?thesis
    unfolding conv_plane_def Let_def pw pwp k(1) length_replicate
  proof (rule map_upt_const)
    fix i
    assume i: "i < h + 1 - kh"
    show "map (\<lambda>j. fsum (concat (map2 (\<lambda>krow prow. map2 (\<lambda>w x. fmul (Fin w) x) krow (take kw (drop j prow)))
                k (take kh (drop i (replicate h (replicate w (Fin c))))))))
            [0..<w + 1 - kw]
          = replicate (w + 1 - kw) (Fin (sum_list (concat k) * c))"
      by (rule map_upt_const) (rule cell [OF i])
  qed
qed

lemma pad_reflect_const:
  "p < h \<Longrightarrow> p < w \<Longrightarrow>
   pad_reflect p (const4 n c h w v) = Inr (const4 n c (h + 2 * p) (w + 2 * p) v)"
  by (simp add: pad_reflect_def const4_def list_all_iff reflect_pad1_replicate)

lemma conv2d_depthwise_const:
  assumes k: "length k = kh" "list_all (\<lambda>row. length row = kw) k" "0 < kh" "0 < kw"
    and fit: "kh \<le> h" "kw \<le> w"
  shows "conv2d_depthwise (replicate c [k]) c (const4 n c h w (Fin x))
       = Inr (const4 n c (h + 1 - kh) (w + 1 - kw) (Fin (sum_list (concat k) * x)))"
proof -
  have pw: "plane_width k = kw"
    using k by (cases k) (simp_all add: plane_width_def)
  have ok: "length (replicate c [k]) = c \<and>
      list_all (\<lambda>im. length im = c) (const4 n c h w (Fin x)) \<and>
      list_all (\<lambda>wc. length wc = 1 \<and> 0 < length (wc ! 0) \<and> 0 < plane_width (wc ! 0)) (replicate c [k]) \<and>
      list_all (\<lambda>im. list_all (\<lambda>(wc, plane).
              length (wc ! 0) \<le> length plane \<and>
              list_all (\<lambda>row. plane_width (wc ! 0) \<le> length row) plane) (zip (replicate c [k]) im))
         (const4 n c h w (Fin x))"
    using k fit by (auto simp: const4_def list_all_iff pw)
  have "map (\<lambda>im. map2 (\<lambda>wc plane. conv_plane (wc ! 0) plane) (replicate c [k]) im)
          (const4 n c h w (Fin x))
      = const4 n c (h + 1 - kh) (w + 1 - kw) (Fin (sum_list (concat k) * x))"
    using conv_plane_const [OF k(1,2,3) fit, of x]
    by (simp add: const4_def)
  then show ?thesis
    unfolding conv2d_depthwise_def using ok by simp
qed

lemma tadd_const: "tadd (const4 n c h w a) (const4 n c h w b) = const4 n c h w (fadd a b)"
  by (simp add: tadd_def const4_def)

lemma forward_const:
  assumes k: "length k = 2 * p + 1" "list_all (\<lambda>row. length row = 2 * p + 1) k"
    and fit: "p < h" "p < w"
  shows "GaussianSmoothing_forward
           \<lparr>pad = p, weight1 = replicate c [k], weight2 = replicate c [k],
            weight3 = replicate c [k], groups = c\<rparr> (const4 n c h w (Fin x))
       = Inr (const4 n c h w (Fin (sum_list (concat k) * x + sum_list (concat k) * x
               + sum_list (concat k) * x)))"
proof -
  have conv: "conv2d_depthwise (replicate c [k]) c (const4 n c (h + 2 * p) (w + 2 * p) (Fin x))
       = Inr (const4 n c h w (Fin (sum_list (concat k) * x)))"
    using conv2d_depthwise_const [OF k, of "h + 2 * p" "w + 2 * p" c n x] fit by simp
  show ?thesis
    by (simp add: GaussianSmoothing_forward_def pad_reflect_const [OF fit] conv tadd_const)
qed

lemma product_kernel_dims:
  "length (product_kernel K sigma) = K \<and> list_all (\<lambda>row. length row = K) (product_kernel K sigma)"
  by (simp add: product_kernel_def list_all_iff)

lemma kernel_normalized_dims:
  "length (kernel_normalized k) = length k \<and>
   list_all (\<lambda>row. length row = n) (kernel_normalized k) = list_all (\<lambda>row. length row = n) k"
  by (simp add: kernel_normalized_def list_all_iff)

lemma gauss1d_pair_pos: "s \<noteq> 0 \<Longrightarrow> 0 < gauss1d K s x * gauss1d K s y"
proof -
  assume s: "s \<noteq> 0"
  have "gauss1d K s x * gauss1d K s y
      = (1 / (s * sqrt (2 * pi)))\<^sup>2 * (exp (- (((x - (real K - 1) / 2) / s)\<^sup>2) / 2)
          * exp (- (((y - (real K - 1) / 2) / s)\<^sup>2) / 2))"
    by (simp add: gauss1d_def Let_def power2_eq_square)
  moreover have "0 < (1 / (s * sqrt (2 * pi)))\<^sup>2" using s by simp
  moreover have "0 < exp (- (((x - (real K - 1) / 2) / s)\<^sup>2) / 2)
          * exp (- (((y - (real K - 1) / 2) / s)\<^sup>2) / 2)"
    by (intro mult_pos_pos exp_gt_zero)
  ultimately show ?thesis by (simp only: mult_pos_pos)
qed

lemma product_kernel_entry_pos:
  assumes "sigma \<noteq> 0"
  shows "0 < gauss1d K (0.5 * sigma) x * gauss1d K (0.5 * sigma) y *
            gauss1d K (1.0 * sigma) x * gauss1d K (1.0 * sigma) y *
            gauss1d K (2.0 * sigma) x * gauss1d K (2.0 * sigma) y"
proof -
  have a: "0 < gauss1d K (0.5 * sigma) x * gauss1d K (0.5 * sigma) y"
    and b: "0 < gauss1d K (1.0 * sigma) x * gauss1d K (1.0 * sigma) y"
    and c: "0 < gauss1d K (2.0 * sigma) x * gauss1d K (2.0 * sigma) y"
    using assms by (simp_all add: gauss1d_pair_pos)
  have "0 < (gauss1d K (0.5 * sigma) x * gauss1d K (0.5 * sigma) y) *
            ((gauss1d K (1.0 * sigma) x * gauss1d K (1.0 * sigma) y) *
            (gauss1d K (2.0 * sigma) x * gauss1d K (2.0 * sigma) y))"
    by (intro mult_pos_pos a b c)
  then show ?thesis by (simp only: mult.assoc)
qed

lemma sum_list_pos_real: "xs \<noteq> [] \<Longrightarrow> (\<forall>x\<in>set xs. 0 < x) \<Longrightarrow> 0 < sum_list (xs :: real list)"
  by (induction xs) (auto intro: add_pos_nonneg sum_list_nonneg less_imp_le)

lemma product_kernel_sum_pos:
  assumes "sigma \<noteq> 0" "0 < K"
  shows "0 < sum_list (concat (product_kernel K sigma))"
proof (rule sum_list_pos_real)
  show "concat (product_kernel K sigma) \<noteq> []"
    using assms(2) by (auto simp: product_kernel_def)
  show "\<forall>x\<in>set (concat (product_kernel K sigma)). 0 < x"
    using product_kernel_entry_pos [OF assms(1)] by (auto simp: product_kernel_def)
qed

lemma sum_list_map_divide: "sum_list (map (\<lambda>x. x / S) xs) = sum_list xs / (S::real)"
  by (induction xs) (simp_all add: add_divide_distrib)

lemma sum_list_concat_divide:
  "sum_list (concat (map (map (\<lambda>x. x / S)) k)) = sum_list (concat k) / (S::real)"
  by (induction k) (simp_all add: sum_list_map_divide add_divide_distrib)

lemma kernel_normalized_sum:
  "sum_list (concat k) \<noteq> 0 \<Longrightarrow> sum_list (concat (kernel_normalized k)) = 1"
  by (simp add: kernel_normalized_def sum_list_concat_divide)

lemma sigma_of_nonzero: "sigma_of cnt \<noteq> 0"
proof -
  have "0 < sigma_of cnt" by (simp add: sigma_of_def add_pos_nonneg)
  then show ?thesis by simp
qed

lemma smoothing_const:
  assumes "sigma \<noteq> 0" "4 < h" "4 < w"
  shows "\<exists>gs. GaussianSmoothing_init c KERNEL_SIZE sigma = Inr gs \<and>
           GaussianSmoothing_forward gs (const4 n c h w (Fin x)) = Inr (const4 n c h w (Fin (x + x + x)))"
proof -
  define k where "k = kernel_normalized (product_kernel 9 sigma)"
  have dims: "length k = 2 * 4 + 1" "list_all (\<lambda>row. length row = 2 * 4 + 1) k"
    using product_kernel_dims [of 9 sigma] kernel_normalized_dims [of "product_kernel 9 sigma" 9]
    by (simp_all add: k_def)
  have one: "sum_list (concat k) = 1"
    using product_kernel_sum_pos [OF assms(1), of 9] by (simp add: k_def kernel_normalized_sum)
  have init: "GaussianSmoothing_init c KERNEL_SIZE sigma =
     Inr \<lparr>pad = 4, weight1 = replicate c [k], weight2 = replicate c [k],
          weight3 = replicate c [k], groups = c\<rparr>"
    using init_result [OF assms(1), of c 9] by (simp add: KERNEL_SIZE_def k_def)
  show ?thesis
    using forward_const [OF dims assms(2,3), of c n x] init by (simp add: one)
qed

section \<open>Properties of the gradient ascent step\<close>

lemma flatten4_const4: "flatten4 (const4 n c h w v) = replicate (n * c * h * w) v"
proof -
  have cr: "concat (replicate a (replicate b x)) = replicate (a * b) x" for a b and x :: 'b
    by (induction a) (simp_all add: replicate_add)
  show ?thesis
    by (simp add: flatten4_def const4_def cr mult.assoc)
qed

lemma fsum_replicate: "fsum (replicate m (Fin x)) = Fin (real m * x)"
  using fsum_Fin [of "replicate m x"] by (simp add: sum_list_replicate)

lemma map4_const4: "map4 f (const4 n c h w v) = const4 n c h w (f v)"
  by (simp add: map4_def const4_def)

lemma map_enumerate_snd: "map (\<lambda>(i, x). f x) (enumerate m xs) = map f xs"
  by (induction xs arbitrary: m) simp_all

lemma tabulate_like_const: "tabulate_like t (\<lambda>b c r j. v) = map4 (\<lambda>x. v) t"
  by (simp add: tabulate_like_def map4_def map_enumerate_snd)

lemma loss_backward_single: "loss_backward [Fin a] = [Fin a]"
  by (simp add: loss_backward_def fsub_def)

lemma g_mean_const4:
  "0 < n * c * h * w \<Longrightarrow> g_mean (const4 n c h w (Fin y)) = Fin \<bar>y\<bar>"
  by (simp add: g_mean_def fmean_def flatten4_const4 fsum_replicate)

lemma normalized_grad_const4:
  "0 < n * c * h * w \<Longrightarrow>
   normalized_grad (const4 n c h w (Fin y)) = const4 n c h w (fdiv (Fin y) (Fin \<bar>y\<bar>))"
  by (simp add: normalized_grad_def g_mean_const4 map4_const4)

lemma clamp_bounds_const4:
  assumes "\<forall>(lo, hi)\<in>set (zip lower_bound upper_bound). fmax (fmin v hi) lo = v"
  shows "clamp_bounds (const4 n 3 h w v) = const4 n 3 h w v"
proof -
  have len: "length (zip lower_bound upper_bound) = 3"
    by (simp add: lower_bound_def upper_bound_def IMAGENET_MEAN_1_def IMAGENET_STD_1_def)
  have "map2 (\<lambda>(lo, hi) plane. map (map (\<lambda>x. fmax (fmin x hi) lo)) plane)
          (zip lower_bound upper_bound) (replicate 3 (replicate h (replicate w v)))
      = replicate 3 (replicate h (replicate w v))"
  proof (rule nth_equalityI)
    show "length (map2 (\<lambda>(lo, hi) plane. map (map (\<lambda>x. fmax (fmin x hi) lo)) plane)
          (zip lower_bound upper_bound) (replicate 3 (replicate h (replicate w v))))
        = length (replicate 3 (replicate h (replicate w v)))"
      using len by simp
  next
    fix i
    assume "i < length (map2 (\<lambda>(lo, hi) plane. map (map (\<lambda>x. fmax (fmin x hi) lo)) plane)
          (zip lower_bound upper_bound) (replicate 3 (replicate h (replicate w v))))"
    then have i: "i < 3" using len by simp
    then have "zip lower_bound upper_bound ! i \<in> set (zip lower_bound upper_bound)"
      using len by (metis nth_mem)
    then have "fmax (fmin v (snd (zip lower_bound upper_bound ! i))) (fst (zip lower_bound upper_bound ! i)) = v"
      using assms by (auto simp: case_prod_beta)
    then show "map2 (\<lambda>(lo, hi) plane. map (map (\<lambda>x. fmax (fmin x hi) lo)) plane)
          (zip lower_bound upper_bound) (replicate 3 (replicate h (replicate w v))) ! i
        = replicate 3 (replicate h (replicate w v)) ! i"
      using i len by (simp add: case_prod_beta)
  qed
  then show ?thesis
    by (simp add: clamp_bounds_def const4_def)
qed

lemma gradient_ascent_flat:
  assumes "4 < h" "4 < w" and y: "fsum (flatten4 (const4 1 3 h w (Fin x))) = Fin y"
  shows "gradient_ascent sum_network (flat_tensor h w (Fin x)) lr cnt =
     Inr \<lparr>data = clamp_bounds (const4 1 3 h w
             (fadd (Fin x) (fmul (Fin lr) (fdiv (Fin (3 * y)) (Fin \<bar>3 * y\<bar>))))),
          grad = Some (const4 1 3 h w (Fin 0)), requires_grad = True\<rparr>"
proof -
  obtain gs where gs: "GaussianSmoothing_init 3 KERNEL_SIZE (sigma_of cnt) = Inr gs"
    "GaussianSmoothing_forward gs (const4 1 3 h w (Fin y)) = Inr (const4 1 3 h w (Fin (y + y + y)))"
    using smoothing_const [OF sigma_of_nonzero assms(1,2), of 3 cnt 1 y] by blast
  have pos: "0 < 1 * 3 * h * w" using assms by simp
  have fwd: "net_forward sum_network (const4 1 3 h w (Fin x))
      = Inr (\<lambda>name. if name = ''inception4c'' then Some [Fin y] else None)"
    using y by (auto simp: sum_network_def fun_eq_iff)
  have bwd: "tabulate_like (const4 1 3 h w (Fin x))
        (net_backward sum_network (const4 1 3 h w (Fin x)) ''inception4c'' (loss_backward [Fin y]))
      = const4 1 3 h w (Fin y)"
    by (simp add: sum_network_def loss_backward_single tabulate_like_const map4_const4)
  have upd: "tadd (const4 1 3 h w (Fin x))
        (map4 (fmul (Fin lr)) (normalized_grad (const4 1 3 h w (Fin (3 * y)))))
      = const4 1 3 h w (fadd (Fin x) (fmul (Fin lr) (fdiv (Fin (3 * y)) (Fin \<bar>3 * y\<bar>))))"
    by (simp only: normalized_grad_const4 [OF pos] map4_const4 tadd_const)
  show ?thesis
    unfolding gradient_ascent_def flat_tensor_def
    by (simp add: fwd bwd accumulate_def gs upd zeros_like_def map4_const4 Let_def
        del: fadd.simps fmul.simps fdiv.simps One_nat_def)
qed


lemma bounds_values:
  "lower_bound = [Fin (- 0.485 / 0.229), Fin (- 0.456 / 0.224), Fin (- 0.406 / 0.225)]"
  "upper_bound = [Fin ((1 - 0.485) / 0.229), Fin ((1 - 0.456) / 0.224), Fin ((1 - 0.406) / 0.225)]"
  by (simp_all add: lower_bound_def upper_bound_def IMAGENET_MEAN_1_def IMAGENET_STD_1_def)

lemma clamp_one:
  assumes "a \<le> b"
  shows "fmax (fmin x (Fin b)) (Fin a) = NaN \<or>
         (fle (Fin a) (fmax (fmin x (Fin b)) (Fin a)) \<and> fle (fmax (fmin x (Fin b)) (Fin a)) (Fin b))"
  using assms by (cases x) auto

lemma bounds_ordered:
  assumes "c < 3"
  shows "\<exists>a b. lower_bound ! c = Fin a \<and> upper_bound ! c = Fin b \<and> a \<le> b"
proof -
  from assms have "c = 0 \<or> c = 1 \<or> c = 2" by arith
  then have "lower_bound ! c = Fin (- (IMAGENET_MEAN_1 ! c) / (IMAGENET_STD_1 ! c)) \<and>
      upper_bound ! c = Fin ((1 - IMAGENET_MEAN_1 ! c) / (IMAGENET_STD_1 ! c)) \<and>
      - (IMAGENET_MEAN_1 ! c) / (IMAGENET_STD_1 ! c) \<le> (1 - IMAGENET_MEAN_1 ! c) / (IMAGENET_STD_1 ! c)"
    by (elim disjE)
      (simp_all add: lower_bound_def upper_bound_def IMAGENET_MEAN_1_def IMAGENET_STD_1_def)
  then show ?thesis by blast
qed

lemma clamp_bounds_nth:
  assumes "b < length (clamp_bounds t)" "c < length (clamp_bounds t ! b)"
    "r < length (clamp_bounds t ! b ! c)" "j < length (clamp_bounds t ! b ! c ! r)"
  shows "c < 3 \<and> clamp_bounds t ! b ! c ! r ! j
           = fmax (fmin (t ! b ! c ! r ! j) (upper_bound ! c)) (lower_bound ! c)"
proof -
  have len: "length lower_bound = 3" "length upper_bound = 3"
    by (simp_all add: bounds_values)
  have b: "b < length t" using assms(1) by (simp add: clamp_bounds_def)
  then have im: "clamp_bounds t ! b
      = map2 (\<lambda>(lo, hi) plane. map (map (\<lambda>x. fmax (fmin x hi) lo)) plane)
          (zip lower_bound upper_bound) (t ! b)"
    by (simp add: clamp_bounds_def)
  have c: "c < 3" "c < length (t ! b)" using assms(2) len by (simp_all add: im)
  then have pl: "clamp_bounds t ! b ! c
      = map (map (\<lambda>x. fmax (fmin x (upper_bound ! c)) (lower_bound ! c))) (t ! b ! c)"
    using len by (simp add: im)
  have r: "r < length (t ! b ! c)" using assms(3) by (simp add: pl)
  have j: "j < length (t ! b ! c ! r)" using assms(4) r by (simp add: pl)
  show ?thesis using c r j by (simp add: pl)
qed

lemma gradient_ascent_data:
  "gradient_ascent net img lr cnt = Inr img' \<Longrightarrow> \<exists>t. data img' = clamp_bounds t"
  unfolding gradient_ascent_def Let_def
  by (auto split: sum.splits option.splits if_splits)

lemma gradient_ascent_via_smooth:
  "gradient_ascent net img lr cnt = Inr img' \<Longrightarrow>
   \<exists>sg. smooth_grad_of net img cnt = Inr sg \<and>
        data img' = clamp_bounds (tadd (data img) (map4 (fmul (Fin lr)) (normalized_grad sg)))"
  unfolding gradient_ascent_def smooth_grad_of_def Let_def
  by (auto split: sum.splits option.splits if_splits)

lemma nth4_in_flatten4:
  assumes "b < length t" "c < length (t ! b)" "r < length (t ! b ! c)" "j < length (t ! b ! c ! r)"
  shows "t ! b ! c ! r ! j \<in> set (flatten4 t)"
proof -
  have "t ! b \<in> set t" using assms(1) by simp
  moreover have "t ! b ! c \<in> set (t ! b)" using assms(2) by simp
  moreover have "t ! b ! c ! r \<in> set (t ! b ! c)" using assms(3) by simp
  moreover have "t ! b ! c ! r ! j \<in> set (t ! b ! c ! r)" using assms(4) by simp
  ultimately show ?thesis
    unfolding flatten4_def set_concat by blast
qed

lemma map4_nth:
  assumes "b < length (map4 f t)" "c < length (map4 f t ! b)" "r < length (map4 f t ! b ! c)"
    "j < length (map4 f t ! b ! c ! r)"
  shows "b < length t \<and> c < length (t ! b) \<and> r < length (t ! b ! c) \<and> j < length (t ! b ! c ! r) \<and>
         map4 f t ! b ! c ! r ! j = f (t ! b ! c ! r ! j)"
proof -
  have b: "b < length t" using assms(1) by (simp add: map4_def)
  have c: "c < length (t ! b)" using assms(2) b by (simp add: map4_def)
  have r: "r < length (t ! b ! c)" using assms(3) b c by (simp add: map4_def)
  have j: "j < length (t ! b ! c ! r)" using assms(4) b c r by (simp add: map4_def)
  show ?thesis using b c r j by (simp add: map4_def)
qed

lemma tadd_nth:
  assumes "b < length (tadd x y)" "c < length (tadd x y ! b)" "r < length (tadd x y ! b ! c)"
    "j < length (tadd x y ! b ! c ! r)"
  shows "b < length y \<and> c < length (y ! b) \<and> r < length (y ! b ! c) \<and> j < length (y ! b ! c ! r) \<and>
         tadd x y ! b ! c ! r ! j = fadd (x ! b ! c ! r ! j) (y ! b ! c ! r ! j)"
proof -
  have b: "b < length x" "b < length y" using assms(1) by (simp_all add: tadd_def)
  have c: "c < length (x ! b)" "c < length (y ! b)" using assms(2) b by (simp_all add: tadd_def)
  have r: "r < length (x ! b ! c)" "r < length (y ! b ! c)"
    using assms(3) b c by (simp_all add: tadd_def)
  have j: "j < length (x ! b ! c ! r)" "j < length (y ! b ! c ! r)"
    using assms(4) b c r by (simp_all add: tadd_def)
  show ?thesis using b c r j by (simp add: tadd_def)
qed

lemma clamp_bounds_nth':
  assumes "b < length (clamp_bounds t)" "c < length (clamp_bounds t ! b)"
    "r < length (clamp_bounds t ! b ! c)" "j < length (clamp_bounds t ! b ! c ! r)"
  shows "b < length t \<and> c < length (t ! b) \<and> r < length (t ! b ! c) \<and> j < length (t ! b ! c ! r)"
proof -
  have len: "length lower_bound = 3" "length upper_bound = 3"
    by (simp_all add: bounds_values)
  have b: "b < length t" using assms(1) by (simp add: clamp_bounds_def)
  then have im: "clamp_bounds t ! b
      = map2 (\<lambda>(lo, hi) plane. map (map (\<lambda>x. fmax (fmin x hi) lo)) plane)
          (zip lower_bound upper_bound) (t ! b)"
    by (simp add: clamp_bounds_def)
  have c: "c < 3" "c < length (t ! b)" using assms(2) len by (simp_all add: im)
  then have pl: "clamp_bounds t ! b ! c
      = map (map (\<lambda>x. fmax (fmin x (upper_bound ! c)) (lower_bound ! c))) (t ! b ! c)"
    using len by (simp add: im)
  have r: "r < length (t ! b ! c)" using assms(3) by (simp add: pl)
  have j: "j < length (t ! b ! c ! r)" using assms(4) r by (simp add: pl)
  show ?thesis using b c r j by simp
qed

lemma clamp_number:
  assumes "a \<le> b" "x \<noteq> NaN"
  shows "fle (Fin a) (fmax (fmin x (Fin b)) (Fin a)) \<and> fle (fmax (fmin x (Fin b)) (Fin a)) (Fin b)"
  using assms by (cases x) auto

lemma fadd_number: "x \<noteq> NaN \<Longrightarrow> fadd x (Fin y) \<noteq> NaN"
  by (cases x) simp_all

lemma g_mean_zero_elements:
  assumes "g_mean sg = Fin 0" "x \<in> set (flatten4 sg)"
  shows "x = Fin 0"
proof -
  from g_mean_finite [OF assms(1)] obtain zs where zs: "flatten4 sg = map Fin zs" "zs \<noteq> []"
      "0 = sum_list (map abs zs) / real (length zs)"
    by blast
  then have "sum_list (map abs zs) = 0" by simp
  then have "\<forall>z\<in>set zs. z = 0" using sum_list_abs_zero by blast
  then show ?thesis using assms(2) zs(1) by auto
qed

lemma g_mean_number_elements:
  assumes "g_mean sg = Fin m" "x \<in> set (flatten4 sg)"
  shows "\<exists>s. x = Fin s"
proof -
  from g_mean_finite [OF assms(1)] obtain zs where "flatten4 sg = map Fin zs" by blast
  then show ?thesis using assms(2) by auto
qed

text \<open>
  C1, as the code has it. After \<open>gradient_ascent\<close> returns: when the mean absolute value
  of the smoothed gradient is a number other than zero, every element of the tensor that
  was not NaN before the step lies within the bounds of its channel,
  \<open>lower_bound[c] <= x <= upper_bound[c]\<close>; when that mean is exactly zero, every
  element of the tensor is NaN (\<open>0 / 0\<close> goes through the update and through the
  element-wise \<open>max(min(x, upper), lower)\<close>), and is within no bounds.
\<close>

theorem ascent_step_clamped:
  assumes "gradient_ascent net img lr cnt = Inr img'"
    and "smooth_grad_of net img cnt = Inr sg"
    and "b < length (data img')" and "c < length (data img' ! b)"
    and "r < length (data img' ! b ! c)" and "j < length (data img' ! b ! c ! r)"
  shows "(g_mean sg = Fin m \<and> m \<noteq> 0 \<and> data img ! b ! c ! r ! j \<noteq> NaN \<longrightarrow>
            c < 3 \<and> fle (lower_bound ! c) (data img' ! b ! c ! r ! j) \<and>
            fle (data img' ! b ! c ! r ! j) (upper_bound ! c)) \<and>
         (g_mean sg = Fin 0 \<longrightarrow> data img' ! b ! c ! r ! j = NaN)"
proof -
  define u where "u = map4 (fmul (Fin lr)) (normalized_grad sg)"
  define t where "t = tadd (data img) u"
  have d: "data img' = clamp_bounds t"
    using gradient_ascent_via_smooth [OF assms(1)] assms(2) by (auto simp: t_def u_def)
  have e: "c < 3" "data img' ! b ! c ! r ! j
      = fmax (fmin (t ! b ! c ! r ! j) (upper_bound ! c)) (lower_bound ! c)"
    using clamp_bounds_nth [of b t c r j] assms(3-6) by (simp_all add: d)
  have it: "b < length t" "c < length (t ! b)" "r < length (t ! b ! c)" "j < length (t ! b ! c ! r)"
    using clamp_bounds_nth' [of b t c r j] assms(3-6) by (simp_all add: d)
  have iu: "b < length u" "c < length (u ! b)" "r < length (u ! b ! c)" "j < length (u ! b ! c ! r)"
    and tv: "t ! b ! c ! r ! j = fadd (data img ! b ! c ! r ! j) (u ! b ! c ! r ! j)"
    using tadd_nth [of b "data img" u c r j] it by (simp_all add: t_def)
  have isg: "b < length sg" "c < length (sg ! b)" "r < length (sg ! b ! c)"
      "j < length (sg ! b ! c ! r)"
    and uv: "u ! b ! c ! r ! j = fmul (Fin lr) (fdiv (sg ! b ! c ! r ! j) (g_mean sg))"
    using map4_nth [of b "\<lambda>x. fmul (Fin lr) (fdiv x (g_mean sg))" sg c r j] iu
    by (simp_all add: u_def normalized_grad_def map4_def)
  have mem: "sg ! b ! c ! r ! j \<in> set (flatten4 sg)"
    by (rule nth4_in_flatten4 [OF isg])
  obtain lo hi where lh: "lower_bound ! c = Fin lo" "upper_bound ! c = Fin hi" "lo \<le> hi"
    using bounds_ordered [OF e(1)] by blast
  show ?thesis
  proof (intro conjI impI)
    assume a: "g_mean sg = Fin m \<and> m \<noteq> 0 \<and> data img ! b ! c ! r ! j \<noteq> NaN"
    then obtain s where s: "sg ! b ! c ! r ! j = Fin s"
      using g_mean_number_elements mem by blast
    have "u ! b ! c ! r ! j = Fin (lr * (s / m))" using a s by (simp add: uv)
    then have "t ! b ! c ! r ! j \<noteq> NaN" using a fadd_number by (simp add: tv)
    from clamp_number [OF lh(3) this]
    show "fle (lower_bound ! c) (data img' ! b ! c ! r ! j)"
      and "fle (data img' ! b ! c ! r ! j) (upper_bound ! c)"
      by (simp_all add: e(2) lh)
    show "c < 3" by (rule e(1))
  next
    assume a: "g_mean sg = Fin 0"
    then have "sg ! b ! c ! r ! j = Fin 0" using g_mean_zero_elements mem by blast
    then have "u ! b ! c ! r ! j = NaN" using a by (simp add: uv)
    then have "t ! b ! c ! r ! j = NaN" by (cases "data img ! b ! c ! r ! j") (simp_all add: tv)
    then show "data img' ! b ! c ! r ! j = NaN" by (simp add: e(2) lh)
  qed
qed

lemma fsum_flat_ones: "fsum (flatten4 (const4 1 3 5 5 (Fin 1))) = Fin 75"
  by (simp add: flatten4_const4 fsum_replicate)

lemma fsum_flat_zeros: "fsum (flatten4 (const4 1 3 5 5 (Fin 0))) = Fin 0"
  by (simp add: flatten4_const4 fsum_replicate)

lemma ascent_on_ones:
  "gradient_ascent sum_network (flat_tensor 5 5 (Fin 1)) (9 / 100) 0
     = Inr \<lparr>data = const4 1 3 5 5 (Fin (109 / 100)), grad = Some (const4 1 3 5 5 (Fin 0)),
            requires_grad = True\<rparr>"
proof -
  have "clamp_bounds (const4 1 3 5 5 (Fin (109 / 100))) = const4 1 3 5 5 (Fin (109 / 100))"
    by (rule clamp_bounds_const4) (simp add: bounds_values)
  then show ?thesis
    using gradient_ascent_flat [OF _ _ fsum_flat_ones, of "9 / 100" 0] by simp
qed

lemma ascent_on_zeros:
  "gradient_ascent sum_network (flat_tensor 5 5 (Fin 0)) (9 / 100) 0
     = Inr \<lparr>data = const4 1 3 5 5 NaN, grad = Some (const4 1 3 5 5 (Fin 0)),
            requires_grad = True\<rparr>"
proof -
  have "clamp_bounds (const4 1 3 5 5 NaN) = const4 1 3 5 5 NaN"
    by (rule clamp_bounds_const4) (simp add: bounds_values)
  then show ?thesis
    using gradient_ascent_flat [OF _ _ fsum_flat_zeros, of "9 / 100" 0] by simp
qed

lemma smooth_grad_of_flat:
  assumes "4 < h" "4 < w" and y: "fsum (flatten4 (const4 1 3 h w (Fin x))) = Fin y"
  shows "smooth_grad_of sum_network (flat_tensor h w (Fin x)) cnt = Inr (const4 1 3 h w (Fin (3 * y)))"
proof -
  obtain gs where gs: "GaussianSmoothing_init 3 KERNEL_SIZE (sigma_of cnt) = Inr gs"
    "GaussianSmoothing_forward gs (const4 1 3 h w (Fin y)) = Inr (const4 1 3 h w (Fin (y + y + y)))"
    using smoothing_const [OF sigma_of_nonzero assms(1,2), of 3 cnt 1 y] by blast
  have fwd: "net_forward sum_network (const4 1 3 h w (Fin x))
      = Inr (\<lambda>name. if name = ''inception4c'' then Some [Fin y] else None)"
    using y by (auto simp: sum_network_def fun_eq_iff)
  have bwd: "tabulate_like (const4 1 3 h w (Fin x))
        (net_backward sum_network (const4 1 3 h w (Fin x)) ''inception4c'' (loss_backward [Fin y]))
      = const4 1 3 h w (Fin y)"
    by (simp add: sum_network_def loss_backward_single tabulate_like_const map4_const4)
  show ?thesis
    unfolding smooth_grad_of_def flat_tensor_def
    by (simp add: fwd bwd accumulate_def gs Let_def del: One_nat_def)
qed

lemma smooth_on_ones:
  "smooth_grad_of sum_network (flat_tensor 5 5 (Fin 1)) 0 = Inr (const4 1 3 5 5 (Fin 225))"
  using smooth_grad_of_flat [OF _ _ fsum_flat_ones, of 0] by simp

lemma smooth_on_zeros:
  "smooth_grad_of sum_network (flat_tensor 5 5 (Fin 0)) 0 = Inr (const4 1 3 5 5 (Fin 0))"
  using smooth_grad_of_flat [OF _ _ fsum_flat_zeros, of 0] by simp

theorem ascent_step_clamped_witness:
  "gradient_ascent sum_network (flat_tensor 5 5 (Fin 1)) (9 / 100) 0
     = Inr \<lparr>data = const4 1 3 5 5 (Fin (109 / 100)), grad = Some (const4 1 3 5 5 (Fin 0)),
            requires_grad = True\<rparr> \<and>
   smooth_grad_of sum_network (flat_tensor 5 5 (Fin 1)) 0 = Inr (const4 1 3 5 5 (Fin 225)) \<and>
   g_mean (const4 1 3 5 5 (Fin 225)) = Fin 225 \<and>
   data (flat_tensor 5 5 (Fin 1)) ! 0 ! 1 ! 2 ! 3 = Fin 1 \<and>
   const4 1 3 5 5 (Fin (109 / 100)) ! 0 ! 1 ! 2 ! 3 = Fin (109 / 100) \<and>
   fle (lower_bound ! 1) (Fin (109 / 100)) \<and> fle (Fin (109 / 100)) (upper_bound ! 1) \<and>
   gradient_ascent sum_network (flat_tensor 5 5 (Fin 0)) (9 / 100) 0
     = Inr \<lparr>data = const4 1 3 5 5 NaN, grad = Some (const4 1 3 5 5 (Fin 0)),
            requires_grad = True\<rparr> \<and>
   smooth_grad_of sum_network (flat_tensor 5 5 (Fin 0)) 0 = Inr (const4 1 3 5 5 (Fin 0)) \<and>
   g_mean (const4 1 3 5 5 (Fin 0)) = Fin 0 \<and>
   const4 1 3 5 5 NaN ! 0 ! 1 ! 2 ! 3 = NaN"
proof -
  have el: "const4 1 3 5 5 v ! 0 ! 1 ! 2 ! 3 = v" for v :: fval
    by (simp add: const4_def)
  have gm: "g_mean (const4 1 3 5 5 (Fin 225)) = Fin 225" "g_mean (const4 1 3 5 5 (Fin 0)) = Fin 0"
    by (simp_all add: g_mean_const4)
  have idx: "0 < length (const4 1 3 5 5 v)" "1 < length (const4 1 3 5 5 v ! 0)"
    "2 < length (const4 1 3 5 5 v ! 0 ! 1)" "3 < length (const4 1 3 5 5 v ! 0 ! 1 ! 2)" for v :: fval
    by (simp_all add: const4_def)
  have one: "1 < (3::nat) \<and> fle (lower_bound ! 1) (Fin (109 / 100)) \<and>
      fle (Fin (109 / 100)) (upper_bound ! 1)"
    using ascent_step_clamped [OF ascent_on_ones smooth_on_ones, of 0 1 2 3 225] idx gm
      el [of "Fin 1"] el [of "Fin (109 / 100)"]
    by (simp add: flat_tensor_def)
  have zero: "const4 1 3 5 5 NaN ! 0 ! 1 ! 2 ! 3 = NaN"
    using ascent_step_clamped [OF ascent_on_zeros smooth_on_zeros, of 0 1 2 3 0] idx gm
      el [of NaN]
    by simp
  show ?thesis
    using one zero ascent_on_ones ascent_on_zeros smooth_on_ones smooth_on_zeros gm
      el [of "Fin 1"] el [of "Fin (109 / 100)"]
    by (simp add: flat_tensor_def)
qed

theorem ascent_step_clamped_counterexample:
  "gradient_ascent sum_network (flat_tensor 5 5 (Fin 0)) (9 / 100) 0
     = Inr \<lparr>data = const4 1 3 5 5 NaN, grad = Some (const4 1 3 5 5 (Fin 0)),
            requires_grad = True\<rparr> \<and>
   const4 1 3 5 5 NaN ! 0 ! 0 ! 0 ! 0 = NaN \<and>
   \<not> fle (lower_bound ! 0) (const4 1 3 5 5 NaN ! 0 ! 0 ! 0 ! 0)"
  using ascent_on_zeros by (simp add: const4_def bounds_values)

section \<open>The kernels of the smoothing filter\<close>

lemma gauss1d_step:
  assumes "s \<noteq> 0"
  shows "gauss1d 9 s 1 = gauss1d 9 s 0 * exp (7 / (2 * s\<^sup>2))"
proof -
  have "- (((1 - (real 9 - 1) / 2) / s)\<^sup>2) / 2 = - (((0 - (real 9 - 1) / 2) / s)\<^sup>2) / 2 + 7 / (2 * s\<^sup>2)"
    using assms by (simp add: power2_eq_square field_simps)
  then have "exp (- (((1 - (real 9 - 1) / 2) / s)\<^sup>2) / 2)
      = exp (- (((0 - (real 9 - 1) / 2) / s)\<^sup>2) / 2) * exp (7 / (2 * s\<^sup>2))"
    by (simp only: exp_add)
  then show ?thesis
    by (simp add: gauss1d_def Let_def)
qed

lemma product_kernel_entries:
  "product_kernel 9 sigma ! 0 ! 0 =
     gauss1d 9 (0.5 * sigma) 0 * gauss1d 9 (0.5 * sigma) 0 *
     gauss1d 9 (1.0 * sigma) 0 * gauss1d 9 (1.0 * sigma) 0 *
     gauss1d 9 (2.0 * sigma) 0 * gauss1d 9 (2.0 * sigma) 0"
  "product_kernel 9 sigma ! 0 ! 1 =
     gauss1d 9 (0.5 * sigma) 0 * gauss1d 9 (0.5 * sigma) 1 *
     gauss1d 9 (1.0 * sigma) 0 * gauss1d 9 (1.0 * sigma) 1 *
     gauss1d 9 (2.0 * sigma) 0 * gauss1d 9 (2.0 * sigma) 1"
  by (simp_all add: product_kernel_def)

lemma gaussian_kernel2d_entries:
  "gaussian_kernel2d 9 s ! 0 ! 0 = gauss1d 9 s 0 * gauss1d 9 s 0 /
     sum_list (concat (map (\<lambda>i. map (\<lambda>j. gauss1d 9 s (real i) * gauss1d 9 s (real j)) [0..<9]) [0..<9]))"
  "gaussian_kernel2d 9 s ! 0 ! 1 = gauss1d 9 s 0 * gauss1d 9 s 1 /
     sum_list (concat (map (\<lambda>i. map (\<lambda>j. gauss1d 9 s (real i) * gauss1d 9 s (real j)) [0..<9]) [0..<9]))"
  by (simp_all add: gaussian_kernel2d_def Let_def)

lemma kernel_normalized_entries:
  "kernel_normalized (product_kernel 9 sigma) ! 0 ! 0
     = product_kernel 9 sigma ! 0 ! 0 / sum_list (concat (product_kernel 9 sigma))"
  "kernel_normalized (product_kernel 9 sigma) ! 0 ! 1
     = product_kernel 9 sigma ! 0 ! 1 / sum_list (concat (product_kernel 9 sigma))"
  by (simp_all add: kernel_normalized_def product_kernel_def)

lemma product_kernel_not_gaussian:
  assumes sigma: "sigma \<noteq> 0" and r: "r \<noteq> 0" "21 * r\<^sup>2 \<noteq> 4"
  shows "kernel_normalized (product_kernel 9 sigma) \<noteq> gaussian_kernel2d 9 (r * sigma)"
proof
  assume eq: "kernel_normalized (product_kernel 9 sigma) = gaussian_kernel2d 9 (r * sigma)"
  define SP where "SP = sum_list (concat (product_kernel 9 sigma))"
  define SG where "SG = sum_list (concat (map (\<lambda>i. map (\<lambda>j. gauss1d 9 (r * sigma) (real i) * gauss1d 9 (r * sigma) (real j)) [0..<9]) [0..<9]))"
  define P0 where "P0 = product_kernel 9 sigma ! 0 ! 0"
  define G0 where "G0 = gauss1d 9 (r * sigma) 0 * gauss1d 9 (r * sigma) 0"
  define EP where "EP = exp (7 / (2 * (0.5 * sigma)\<^sup>2)) * exp (7 / (2 * (1.0 * sigma)\<^sup>2))
      * exp (7 / (2 * (2.0 * sigma)\<^sup>2))"
  define EG where "EG = exp (7 / (2 * (r * sigma)\<^sup>2))"
  have rs: "r * sigma \<noteq> 0" "0.5 * sigma \<noteq> 0" "1.0 * sigma \<noteq> 0" "2.0 * sigma \<noteq> 0"
    using sigma r by simp_all
  have P0pos: "0 < P0"
    unfolding P0_def product_kernel_entries using product_kernel_entry_pos [OF sigma] by simp
  have SPpos: "0 < SP"
    unfolding SP_def using product_kernel_sum_pos [OF sigma, of 9] by simp
  have P1: "product_kernel 9 sigma ! 0 ! 1 = P0 * EP"
    unfolding P0_def EP_def product_kernel_entries
      gauss1d_step [OF rs(2)] gauss1d_step [OF rs(3)] gauss1d_step [OF rs(4)]
    by (simp only: mult_ac)
  have G1: "gauss1d 9 (r * sigma) 0 * gauss1d 9 (r * sigma) 1 = G0 * EG"
    unfolding G0_def EG_def gauss1d_step [OF rs(1)] by (simp only: mult_ac)
  have e0: "P0 / SP = G0 / SG"
    using arg_cong [OF eq, of "\<lambda>k. k ! 0 ! 0"]
    by (simp only: kernel_normalized_entries gaussian_kernel2d_entries P0_def SP_def G0_def SG_def)
  have e1: "P0 * EP / SP = G0 * EG / SG"
    using arg_cong [OF eq, of "\<lambda>k. k ! 0 ! 1"]
    by (simp only: kernel_normalized_entries gaussian_kernel2d_entries P1 [symmetric] G1 [symmetric]
        SP_def SG_def)
  have "(P0 / SP) * EP = (G0 / SG) * EG" using e1 by simp
  then have "(P0 / SP) * EP = (P0 / SP) * EG" by (simp only: e0)
  moreover have "P0 / SP \<noteq> 0" using P0pos SPpos by simp
  ultimately have "EP = EG" by simp
  then have "exp (7 / (2 * (0.5 * sigma)\<^sup>2) + 7 / (2 * (1.0 * sigma)\<^sup>2) + 7 / (2 * (2.0 * sigma)\<^sup>2))
      = exp (7 / (2 * (r * sigma)\<^sup>2))"
    by (simp only: EP_def EG_def exp_add)
  then have "7 / (2 * (0.5 * sigma)\<^sup>2) + 7 / (2 * (1.0 * sigma)\<^sup>2) + 7 / (2 * (2.0 * sigma)\<^sup>2)
      = 7 / (2 * (r * sigma)\<^sup>2)"
    by (simp only: exp_inj_iff)
  then have "21 * r\<^sup>2 = 4"
    using sigma r(1) by (simp add: power2_eq_square field_simps)
  then show False using r(2) by simp
qed


text \<open>
  C3 on the code, at the call that \<open>gradient_ascent\<close> makes in iteration 0: the three
  weights that \<open>GaussianSmoothing(3, 9, 0.7)\<close> registers are one and the same kernel,
  the normalized product of all six factors, and it is none of the normalized Gaussian
  kernels of standard deviation \<open>0.5 * sigma\<close>, \<open>1.0 * sigma\<close> and \<open>2.0 * sigma\<close>.
\<close>

theorem smoothing_weights_collapse:
  "GaussianSmoothing_init 3 9 (7 / 10) =
     Inr \<lparr>pad = 4,
          weight1 = replicate 3 [kernel_normalized (product_kernel 9 (7 / 10))],
          weight2 = replicate 3 [kernel_normalized (product_kernel 9 (7 / 10))],
          weight3 = replicate 3 [kernel_normalized (product_kernel 9 (7 / 10))],
          groups = 3\<rparr> \<and>
   replicate 3 [kernel_normalized (product_kernel 9 (7 / 10))] \<noteq> gaussian_weight 3 9 (0.5 * (7 / 10)) \<and>
   replicate 3 [kernel_normalized (product_kernel 9 (7 / 10))] \<noteq> gaussian_weight 3 9 (1.0 * (7 / 10)) \<and>
   replicate 3 [kernel_normalized (product_kernel 9 (7 / 10))] \<noteq> gaussian_weight 3 9 (2.0 * (7 / 10))"
proof -
  have init: "GaussianSmoothing_init 3 9 (7 / 10) =
     Inr \<lparr>pad = 4,
          weight1 = replicate 3 [kernel_normalized (product_kernel 9 (7 / 10))],
          weight2 = replicate 3 [kernel_normalized (product_kernel 9 (7 / 10))],
          weight3 = replicate 3 [kernel_normalized (product_kernel 9 (7 / 10))],
          groups = 3\<rparr>"
    using init_result [of "7 / 10" 3 9] by simp
  have ne: "kernel_normalized (product_kernel 9 (7 / 10)) \<noteq> gaussian_kernel2d 9 (r * (7 / 10))"
    if "r \<noteq> 0" "21 * r\<^sup>2 \<noteq> 4" for r :: real
    using product_kernel_not_gaussian [of "7 / 10" r] that by simp
  have a: "kernel_normalized (product_kernel 9 (7 / 10)) \<noteq> gaussian_kernel2d 9 (0.5 * (7 / 10))"
    by (rule ne) (simp_all add: power2_eq_square)
  have b: "kernel_normalized (product_kernel 9 (7 / 10)) \<noteq> gaussian_kernel2d 9 (1.0 * (7 / 10))"
    by (rule ne) (simp_all add: power2_eq_square)
  have c: "kernel_normalized (product_kernel 9 (7 / 10)) \<noteq> gaussian_kernel2d 9 (2.0 * (7 / 10))"
    by (rule ne) (simp_all add: power2_eq_square)
  have rep: "replicate 3 [x] \<noteq> replicate 3 [y]" if "x \<noteq> y" for x y :: kernel2
    using that by (simp add: numeral_3_eq_3)
  show ?thesis
    unfolding gaussian_weight_def using init rep [OF a] rep [OF b] rep [OF c] by blast
qed

section \<open>The smoothing inside the ascent step\<close>

lemma fsub_zero [simp]: "fsub x (Fin 0) = x"
  by (cases x) (simp_all add: fsub_def)

lemma loss_backward_id: "loss_backward layer = layer"
proof -
  have one: "fmul (fmul (Fin 2) x) (Fin (1 / 2)) = x" for x
    by (cases x) (simp_all add: signed_inf_def)
  have "map2 (\<lambda>x y. fmul (fmul (Fin 2) (fsub x y)) (Fin (1 / 2))) layer (map (\<lambda>x. Fin 0) layer)
      = map (\<lambda>x. fmul (fmul (Fin 2) (fsub x (Fin 0))) (Fin (1 / 2))) layer"
    using map2_same [of "\<lambda>x y. fmul (fmul (Fin 2) (fsub x y)) (Fin (1 / 2))" "\<lambda>x. x" layer "\<lambda>x. Fin 0"]
    by simp
  then show ?thesis
    by (simp add: loss_backward_def one)
qed

lemma tadd_channels_right:
  assumes "list_all (\<lambda>im. length im \<le> g) b"
  shows "list_all (\<lambda>im. length im \<le> g) (tadd a b)"
proof -
  have "length (map2 f x y) \<le> g" if "(x, y) \<in> set (zip a b)" for x y and f :: "fval list list \<Rightarrow> fval list list \<Rightarrow> fval list list"
  proof -
    from that have "y \<in> set b" by (rule set_zip_rightD)
    then have "length y \<le> g" using assms by (simp add: list_all_iff)
    then show ?thesis by simp
  qed
  then show ?thesis
    by (auto simp: tadd_def list_all_iff)
qed

lemma conv2d_depthwise_channels:
  assumes "conv2d_depthwise w g t = Inr out"
  shows "list_all (\<lambda>im. length im \<le> g) out"
proof -
  from assms have w: "length w = g"
    and out: "out = map (\<lambda>im. map2 (\<lambda>wc plane. conv_plane (wc ! 0) plane) w im) t"
    by (auto simp: conv2d_depthwise_def split: if_splits)
  show ?thesis
    by (simp add: out list_all_iff w)
qed

lemma forward_channels:
  assumes "GaussianSmoothing_forward gs t = Inr out"
  shows "list_all (\<lambda>im. length im \<le> groups gs) out"
proof -
  from assms obtain g1 g2 g3 where g3: "conv2d_depthwise (weight3 gs) (groups gs) g1 = Inr g3"
    and out: "out = tadd g2 g3"
    by (auto simp: GaussianSmoothing_forward_def split: sum.splits)
  show ?thesis
    unfolding out by (rule tadd_channels_right) (rule conv2d_depthwise_channels [OF g3])
qed

lemma init_groups: "GaussianSmoothing_init c K sigma = Inr gs \<Longrightarrow> groups gs = c"
  by (auto simp: GaussianSmoothing_init_def Let_def split: sum.splits if_splits)

lemma map4_channels:
  "list_all (\<lambda>im. length im \<le> g) (map4 f t) = list_all (\<lambda>im. length im \<le> g) t"
  by (simp add: map4_def list_all_iff)



section \<open>Configuration values\<close>






section \<open>Shapes through the ascent step\<close>

lemma has_shape_nth:
  "has_shape t n c h w \<longleftrightarrow>
     length t = n \<and>
     (\<forall>b<n. length (t ! b) = c \<and>
       (\<forall>ch<c. length (t ! b ! ch) = h \<and> (\<forall>r<h. length (t ! b ! ch ! r) = w)))"
  unfolding has_shape_def list_all_length by auto

lemma has_shapeI:
  assumes "length t = n"
    and "\<And>b. b < n \<Longrightarrow> length (t ! b) = c"
    and "\<And>b ch. b < n \<Longrightarrow> ch < c \<Longrightarrow> length (t ! b ! ch) = h"
    and "\<And>b ch r. b < n \<Longrightarrow> ch < c \<Longrightarrow> r < h \<Longrightarrow> length (t ! b ! ch ! r) = w"
  shows "has_shape t n c h w"
  using assms unfolding has_shape_nth by blast

lemma has_shapeD:
  assumes "has_shape t n c h w"
  shows "length t = n"
    and "b < n \<Longrightarrow> length (t ! b) = c"
    and "b < n \<Longrightarrow> ch < c \<Longrightarrow> length (t ! b ! ch) = h"
    and "b < n \<Longrightarrow> ch < c \<Longrightarrow> r < h \<Longrightarrow> length (t ! b ! ch ! r) = w"
  using assms unfolding has_shape_nth by blast+

text \<open>A function of planes that takes \<open>h x w\<close> planes to \<open>h' x w'\<close> planes.\<close>

lemma has_shape_map_planes:
  assumes t: "has_shape t n c h w"
    and F: "\<And>pl. length pl = h \<Longrightarrow> (\<forall>r<h. length (pl ! r) = w) \<Longrightarrow>
               length (F pl) = h' \<and> (\<forall>r<h'. length (F pl ! r) = w')"
  shows "has_shape (map (map F) t) n c h' w'"
proof (rule has_shapeI)
  show "length (map (map F) t) = n" using has_shapeD(1) [OF t] by simp
next
  fix b assume b: "b < n"
  then show "length (map (map F) t ! b) = c"
    using has_shapeD(1,2) [OF t] by simp
next
  fix b ch assume b: "b < n" and ch: "ch < c"
  have pl: "map (map F) t ! b ! ch = F (t ! b ! ch)"
    using b ch has_shapeD(1,2) [OF t] by simp
  have "length (t ! b ! ch) = h" "\<forall>r<h. length (t ! b ! ch ! r) = w"
    using has_shapeD(3,4) [OF t b ch] by simp_all
  from F [OF this] show "length (map (map F) t ! b ! ch) = h'"
    by (simp add: pl)
next
  fix b ch r assume b: "b < n" and ch: "ch < c" and r: "r < h'"
  have pl: "map (map F) t ! b ! ch = F (t ! b ! ch)"
    using b ch has_shapeD(1,2) [OF t] by simp
  have "length (t ! b ! ch) = h" "\<forall>r<h. length (t ! b ! ch ! r) = w"
    using has_shapeD(3,4) [OF t b ch] by simp_all
  from F [OF this] r show "length (map (map F) t ! b ! ch ! r) = w'"
    by (simp add: pl)
qed

lemma has_shape_set:
  assumes "has_shape t n c h w" "im \<in> set t" "pl \<in> set im"
  shows "length pl = h \<and> (\<forall>row\<in>set pl. length row = w)"
proof -
  from assms(1,2) have "list_all (\<lambda>plane. length plane = h \<and> list_all (\<lambda>row. length row = w) plane) im"
    by (simp add: has_shape_def list_all_iff)
  then show ?thesis using assms(3) by (simp add: list_all_iff)
qed

lemma has_shape_channels:
  assumes "has_shape t n c h w" "im \<in> set t"
  shows "length im = c"
  using assms by (simp add: has_shape_def list_all_iff)

lemma reflect_pad1_length: "p < length xs \<Longrightarrow> length (reflect_pad1 p xs) = length xs + 2 * p"
  by (auto simp: reflect_pad1_def min_def)

lemma reflect_pad1_set: "set (reflect_pad1 p xs) \<subseteq> set xs"
  by (auto simp: reflect_pad1_def dest!: in_set_takeD in_set_dropD)

lemma rows_of:
  "(\<forall>r<length pl. length (pl ! r) = w) \<longleftrightarrow> (\<forall>row\<in>set pl. length row = w)"
  by (simp add: all_set_conv_all_nth)

lemma pad_reflect_shape:
  assumes t: "has_shape t n c h w" and p: "p < h" "p < w"
  shows "\<exists>out. pad_reflect p t = Inr out \<and> has_shape out n c (h + 2 * p) (w + 2 * p)"
proof -
  have ok: "list_all (list_all (\<lambda>plane. p < length plane \<and> list_all (\<lambda>row. p < length row) plane)) t"
    unfolding list_all_iff
  proof (intro ballI conjI)
    fix im pl assume "im \<in> set t" "pl \<in> set im"
    then have pl: "length pl = h \<and> (\<forall>row\<in>set pl. length row = w)"
      by (rule has_shape_set [OF t])
    then show "p < length pl" using p by simp
    fix row assume "row \<in> set pl"
    then show "p < length row" using pl p by simp
  qed
  have "has_shape (map (map (\<lambda>plane. reflect_pad1 p (map (reflect_pad1 p) plane))) t)
          n c (h + 2 * p) (w + 2 * p)"
  proof (rule has_shape_map_planes [OF t])
    fix pl :: "'a list list"
    assume len: "length pl = h" and rows: "\<forall>r<h. length (pl ! r) = w"
    have "\<forall>r<length pl. length (pl ! r) = w" using rows len by simp
    then have rs: "\<forall>row\<in>set pl. length row = w" by (simp only: rows_of)
    define X where "X = reflect_pad1 p (map (reflect_pad1 p) pl)"
    have l: "length X = h + 2 * p"
      using len p by (simp add: X_def reflect_pad1_length)
    have "\<forall>row\<in>set X. length row = w + 2 * p"
    proof
      fix row assume "row \<in> set X"
      then have "row \<in> set (map (reflect_pad1 p) pl)"
        using reflect_pad1_set [of p "map (reflect_pad1 p) pl"] by (auto simp: X_def)
      then obtain r0 where r0: "r0 \<in> set pl" "row = reflect_pad1 p r0" by auto
      have "length r0 = w" using rs r0(1) by simp
      then show "length row = w + 2 * p" using p r0(2) by (simp add: reflect_pad1_length)
    qed
    then have "\<forall>r<length X. length (X ! r) = w + 2 * p" by (simp only: rows_of)
    then show "length X = h + 2 * p \<and> (\<forall>r<h + 2 * p. length (X ! r) = w + 2 * p)"
      using l by simp
  qed
  then show ?thesis using ok by (simp add: pad_reflect_def)
qed


lemma conv_plane_shape:
  assumes k: "length k = kh" "plane_width k = kw" "0 < kh"
    and pl: "length pl = h" "\<forall>r<h. length (pl ! r) = w" and fit: "kh \<le> h"
  shows "length (conv_plane k pl) = h + 1 - kh \<and>
         (\<forall>r<h + 1 - kh. length (conv_plane k pl ! r) = w + 1 - kw)"
proof -
  have "0 < h" using k(3) fit by simp
  then have "length (pl ! 0) = w" using pl(2) by simp
  then have pw: "plane_width pl = w"
    using \<open>0 < h\<close> pl(1) by (cases pl) (simp_all add: plane_width_def)
  show ?thesis
    unfolding conv_plane_def Let_def k(1,2) pw pl(1) by simp
qed

lemma map2_replicate_left:
  "length ys = n \<Longrightarrow> map2 f (replicate n x) ys = map (f x) ys"
  by (induction ys arbitrary: n) auto

lemma conv2d_depthwise_shape:
  assumes k: "length k = K" "list_all (\<lambda>row. length row = K) k" "0 < K"
    and t: "has_shape t n c h w" and fit: "K \<le> h" "K \<le> w"
  shows "\<exists>out. conv2d_depthwise (replicate c [k]) c t = Inr out \<and>
           has_shape out n c (h + 1 - K) (w + 1 - K)"
proof -
  have pw: "plane_width k = K"
    using k by (cases k) (simp_all add: plane_width_def)
  have c1: "list_all (\<lambda>im. length im = c) t"
    unfolding list_all_iff using has_shape_channels [OF t] by blast
  have c2: "list_all (\<lambda>wc. length wc = 1 \<and> 0 < length (wc ! 0) \<and> 0 < plane_width (wc ! 0))
      (replicate c [k])"
    using k(1,3) pw by (auto simp: list_all_iff)
  have c3: "list_all (\<lambda>im. list_all (\<lambda>(wc, plane).
              length (wc ! 0) \<le> length plane \<and>
              list_all (\<lambda>row. plane_width (wc ! 0) \<le> length row) plane) (zip (replicate c [k]) im)) t"
    unfolding list_all_iff
  proof (intro ballI)
    fix im x assume im: "im \<in> set t" and x: "x \<in> set (zip (replicate c [k]) im)"
    obtain wc plane where wp: "x = (wc, plane)" by (cases x)
    have "wc \<in> set (replicate c [k])" using x wp by (auto dest: set_zip_leftD)
    then have wc: "wc = [k]" by simp
    have "plane \<in> set im" using x wp by (auto dest: set_zip_rightD)
    then have plane: "length plane = h \<and> (\<forall>row\<in>set plane. length row = w)"
      using has_shape_set [OF t im] by blast
    show "case x of (wc, plane) \<Rightarrow> length (wc ! 0) \<le> length plane \<and>
        (\<forall>row\<in>set plane. plane_width (wc ! 0) \<le> length row)"
      using wp wc plane k(1) pw fit by simp
  qed
  have eq: "map (\<lambda>im. map2 (\<lambda>wc plane. conv_plane (wc ! 0) plane) (replicate c [k]) im) t
      = map (map (conv_plane k)) t"
  proof (rule map_cong [OF refl])
    fix im assume "im \<in> set t"
    then have "length im = c" by (rule has_shape_channels [OF t])
    then show "map2 (\<lambda>wc plane. conv_plane (wc ! 0) plane) (replicate c [k]) im = map (conv_plane k) im"
      by (simp add: map2_replicate_left)
  qed
  have hs: "has_shape (map (map (conv_plane k)) t) n c (h + 1 - K) (w + 1 - K)"
    by (rule has_shape_map_planes [OF t]) (rule conv_plane_shape [OF k(1) pw k(3) _ _ fit(1)])
  have res: "conv2d_depthwise (replicate c [k]) c t
      = Inr (map (\<lambda>im. map2 (\<lambda>wc plane. conv_plane (wc ! 0) plane) (replicate c [k]) im) t)"
    unfolding conv2d_depthwise_def using c1 c2 c3 by simp
  show ?thesis
    unfolding res eq using hs by blast
qed

lemma tadd_shape:
  assumes a: "has_shape a n c h w" and b: "has_shape b n c h w"
  shows "has_shape (tadd a b) n c h w"
proof (rule has_shapeI)
  show "length (tadd a b) = n"
    using has_shapeD(1) [OF a] has_shapeD(1) [OF b] by (simp add: tadd_def)
next
  fix i assume i: "i < n"
  show "length (tadd a b ! i) = c"
    using i has_shapeD(1,2) [OF a] has_shapeD(1,2) [OF b] by (simp add: tadd_def)
next
  fix i ch assume i: "i < n" and ch: "ch < c"
  show "length (tadd a b ! i ! ch) = h"
    using i ch has_shapeD(1,2,3) [OF a] has_shapeD(1,2,3) [OF b] by (simp add: tadd_def)
next
  fix i ch r assume i: "i < n" and ch: "ch < c" and r: "r < h"
  show "length (tadd a b ! i ! ch ! r) = w"
    using i ch r has_shapeD [OF a] has_shapeD [OF b] by (simp add: tadd_def)
qed

lemma forward_shape:
  assumes k: "length k = 2 * p + 1" "list_all (\<lambda>row. length row = 2 * p + 1) k"
    and t: "has_shape t n c h w" and fit: "p < h" "p < w"
  shows "\<exists>out. GaussianSmoothing_forward
           \<lparr>pad = p, weight1 = replicate c [k], weight2 = replicate c [k],
            weight3 = replicate c [k], groups = c\<rparr> t = Inr out \<and> has_shape out n c h w"
proof -
  obtain tp where tp: "pad_reflect p t = Inr tp" "has_shape tp n c (h + 2 * p) (w + 2 * p)"
    using pad_reflect_shape [OF t fit] by blast
  have "\<exists>out. conv2d_depthwise (replicate c [k]) c tp = Inr out \<and>
      has_shape out n c (h + 2 * p + 1 - (2 * p + 1)) (w + 2 * p + 1 - (2 * p + 1))"
    by (rule conv2d_depthwise_shape [OF k _ tp(2)]) (use fit in simp_all)
  then obtain g where g: "conv2d_depthwise (replicate c [k]) c tp = Inr g"
      "has_shape g n c (h + 2 * p + 1 - (2 * p + 1)) (w + 2 * p + 1 - (2 * p + 1))"
    by blast
  have gs: "has_shape g n c h w" using g(2) by simp
  have "has_shape (tadd (tadd g g) g) n c h w"
    by (intro tadd_shape gs)
  then show ?thesis
    by (simp add: GaussianSmoothing_forward_def tp(1) g(1))
qed


lemma tabulate_like_shape:
  assumes t: "has_shape t n c h w"
  shows "has_shape (tabulate_like t f) n c h w"
proof (rule has_shapeI)
  show "length (tabulate_like t f) = n"
    using has_shapeD(1) [OF t] by (simp add: tabulate_like_def)
next
  fix i assume i: "i < n"
  show "length (tabulate_like t f ! i) = c"
    using i has_shapeD(1,2) [OF t] by (simp add: tabulate_like_def nth_enumerate_eq)
next
  fix i ch assume i: "i < n" and ch: "ch < c"
  show "length (tabulate_like t f ! i ! ch) = h"
    using i ch has_shapeD(1,2,3) [OF t] by (simp add: tabulate_like_def nth_enumerate_eq)
next
  fix i ch r assume i: "i < n" and ch: "ch < c" and r: "r < h"
  show "length (tabulate_like t f ! i ! ch ! r) = w"
    using i ch r has_shapeD [OF t] by (simp add: tabulate_like_def nth_enumerate_eq)
qed

lemma map4_shape:
  assumes t: "has_shape t n c h w"
  shows "has_shape (map4 f t) n c h w"
  unfolding map4_def
proof (rule has_shape_map_planes [OF t])
  fix pl :: "'a list list"
  assume "length pl = h" "\<forall>r<h. length (pl ! r) = w"
  then show "length (map (map f) pl) = h \<and> (\<forall>r<h. length (map (map f) pl ! r) = w)"
    by simp
qed

lemma bounds_length: "length lower_bound = 3" "length upper_bound = 3"
  by (simp_all add: lower_bound_def upper_bound_def IMAGENET_MEAN_1_def IMAGENET_STD_1_def)

lemma clamp_bounds_shape:
  assumes t: "has_shape t n 3 h w"
  shows "has_shape (clamp_bounds t) n 3 h w"
proof (rule has_shapeI)
  show "length (clamp_bounds t) = n"
    using has_shapeD(1) [OF t] by (simp add: clamp_bounds_def)
next
  fix i assume i: "i < n"
  show "length (clamp_bounds t ! i) = 3"
    using i has_shapeD(1,2) [OF t] by (simp add: clamp_bounds_def bounds_length)
next
  fix i ch assume i: "i < n" and ch: "ch < (3::nat)"
  show "length (clamp_bounds t ! i ! ch) = h"
    using i ch has_shapeD(1,2,3) [OF t] bounds_length
    by (simp add: clamp_bounds_def case_prod_beta)
next
  fix i ch r assume i: "i < n" and ch: "ch < (3::nat)" and r: "r < h"
  show "length (clamp_bounds t ! i ! ch ! r) = w"
    using i ch r has_shapeD [OF t] bounds_length
    by (simp add: clamp_bounds_def case_prod_beta)
qed

lemma smoothing_shape:
  assumes t: "has_shape t n 3 h w" and fit: "4 < h" "4 < w"
  shows "\<exists>gs out. GaussianSmoothing_init 3 KERNEL_SIZE (sigma_of cnt) = Inr gs \<and>
           GaussianSmoothing_forward gs t = Inr out \<and> has_shape out n 3 h w"
proof -
  define k where "k = kernel_normalized (product_kernel 9 (sigma_of cnt))"
  have dims: "length k = 2 * 4 + 1" "list_all (\<lambda>row. length row = 2 * 4 + 1) k"
    using product_kernel_dims [of 9 "sigma_of cnt"]
      kernel_normalized_dims [of "product_kernel 9 (sigma_of cnt)" 9]
    by (simp_all add: k_def)
  have init: "GaussianSmoothing_init 3 KERNEL_SIZE (sigma_of cnt) =
     Inr \<lparr>pad = 4, weight1 = replicate 3 [k], weight2 = replicate 3 [k],
          weight3 = replicate 3 [k], groups = 3\<rparr>"
    using init_result [OF sigma_of_nonzero, of 3 9 cnt] by (simp add: KERNEL_SIZE_def k_def)
  show ?thesis
    using forward_shape [OF dims t fit] init by auto
qed

text \<open>The step returns on a tensor of three channels that is at least 5 by 5, and keeps
  its shape.\<close>

lemma gradient_ascent_returns:
  assumes t: "has_shape (data img) n 3 h w" and fit: "4 < h" "4 < w"
    and img: "requires_grad img" "grad img = None"
    and fwd: "net_forward nw (data img) = Inr out" "out ''inception4c'' = Some layer"
  shows "\<exists>img'. gradient_ascent nw img lr cnt = Inr img' \<and> has_shape (data img') n 3 h w"
proof -
  define G where "G = tabulate_like (data img)
      (net_backward nw (data img) ''inception4c'' (loss_backward layer))"
  have G: "has_shape G n 3 h w" unfolding G_def by (rule tabulate_like_shape [OF t])
  obtain gs sg where gs: "GaussianSmoothing_init 3 KERNEL_SIZE (sigma_of cnt) = Inr gs"
      "GaussianSmoothing_forward gs G = Inr sg" "has_shape sg n 3 h w"
    using smoothing_shape [OF G fit] by blast
  have "has_shape (map4 (fmul (Fin lr)) (normalized_grad sg)) n 3 h w"
    unfolding normalized_grad_def by (intro map4_shape gs(3))
  then have "has_shape (clamp_bounds (tadd (data img) (map4 (fmul (Fin lr)) (normalized_grad sg)))) n 3 h w"
    by (intro clamp_bounds_shape tadd_shape t)
  then show ?thesis
    unfolding gradient_ascent_def
    using fwd img gs(1,2) by (simp add: Let_def accumulate_def G_def [symmetric])
qed


lemma has_shape_single:
  assumes "has_shape t 1 c h w"
  shows "\<exists>im. t = [im] \<and> length im = c \<and>
           (\<forall>pl\<in>set im. length pl = h \<and> (\<forall>row\<in>set pl. length row = w))"
proof -
  from assms have "length t = 1" by (simp add: has_shape_def)
  then obtain im where im: "t = [im]" by (cases t) auto
  then have "im \<in> set t" by simp
  then show ?thesis
    using im has_shape_channels [OF assms] has_shape_set [OF assms] by blast
qed

text \<open>When the step returns on a batch of one image, the image has three channels and is
  at least 5 by 5: the padding and the convolution raise otherwise.\<close>

lemma gradient_ascent_needs:
  assumes run: "gradient_ascent nw img lr cnt = Inr img'"
    and t: "has_shape (data img) 1 c h w" and g: "grad img = None"
  shows "c = 3 \<and> 4 < h \<and> 4 < w \<and> requires_grad img \<and>
         (\<exists>out layer. net_forward nw (data img) = Inr out \<and> out ''inception4c'' = Some layer)"
proof -
  from run obtain out layer where fwd: "net_forward nw (data img) = Inr out"
      "out ''inception4c'' = Some layer" and rg: "requires_grad img"
    unfolding gradient_ascent_def by (auto split: sum.splits option.splits if_splits)
  define G where "G = tabulate_like (data img)
      (net_backward nw (data img) ''inception4c'' (loss_backward layer))"
  have G: "has_shape G 1 c h w" unfolding G_def by (rule tabulate_like_shape [OF t])
  define k where "k = kernel_normalized (product_kernel 9 (sigma_of cnt))"
  have init: "GaussianSmoothing_init 3 KERNEL_SIZE (sigma_of cnt) =
     Inr \<lparr>pad = 4, weight1 = replicate 3 [k], weight2 = replicate 3 [k],
          weight3 = replicate 3 [k], groups = 3\<rparr>"
    using init_result [OF sigma_of_nonzero, of 3 9 cnt] by (simp add: KERNEL_SIZE_def k_def)
  from run obtain sg where "GaussianSmoothing_forward
      \<lparr>pad = 4, weight1 = replicate 3 [k], weight2 = replicate 3 [k],
       weight3 = replicate 3 [k], groups = 3\<rparr> G = Inr sg"
    unfolding gradient_ascent_def
    using fwd rg g init
    by (auto simp: Let_def accumulate_def G_def [symmetric] split: sum.splits)
  then obtain tp g1 where tp: "pad_reflect 4 G = Inr tp"
    and g1: "conv2d_depthwise (replicate 3 [k]) 3 tp = Inr g1"
    by (auto simp: GaussianSmoothing_forward_def split: sum.splits)
  obtain im where im: "G = [im]" "length im = c"
      "\<forall>pl\<in>set im. length pl = h \<and> (\<forall>row\<in>set pl. length row = w)"
    using has_shape_single [OF G] by blast
  from tp have chk: "list_all (\<lambda>plane. 4 < length plane \<and> list_all (\<lambda>row. 4 < length row) plane) im"
    and tpv: "tp = [map (\<lambda>plane. reflect_pad1 4 (map (reflect_pad1 4) plane)) im]"
    by (auto simp: pad_reflect_def im(1) split: if_splits)
  from g1 have "list_all (\<lambda>im. length im = 3) tp"
    by (auto simp: conv2d_depthwise_def split: if_splits)
  then have c: "c = 3" using im(2) by (simp add: tpv)
  then obtain pl where pl: "pl \<in> set im" using im(2) by (cases im) auto
  then have h: "4 < h" using chk im(3) by (auto simp: list_all_iff)
  then obtain row where "row \<in> set pl" using pl im(3) by (cases pl) auto
  then have "4 < w" using chk im(3) pl by (auto simp: list_all_iff)
  then show ?thesis using c h rg fwd by blast
qed

lemma gradient_ascent_shape:
  assumes run: "gradient_ascent nw img lr cnt = Inr img'"
    and t: "has_shape (data img) 1 c h w" and g: "grad img = None"
  shows "has_shape (data img') 1 c h w \<and> c = 3 \<and> 4 < h \<and> 4 < w"
proof -
  from gradient_ascent_needs [OF run t g] obtain out layer
    where n: "c = 3" "4 < h" "4 < w" "requires_grad img"
      and fwd: "net_forward nw (data img) = Inr out" "out ''inception4c'' = Some layer"
    by blast
  have "has_shape (data img) 1 3 h w" using t n(1) by simp
  from gradient_ascent_returns [OF this n(2,3,4) g fwd, of lr cnt]
  show ?thesis using run n by auto
qed


lemma roll1_set: "set (roll1 k xs) = set xs"
  by (simp add: roll1_def)

lemma roll_hw_shape:
  assumes t: "has_shape t n c h w"
  shows "has_shape (roll_hw a b t) n c h w"
  unfolding roll_hw_def
proof (rule has_shape_map_planes [OF t])
  fix pl :: "'a list list"
  assume len: "length pl = h" and rows: "\<forall>r<h. length (pl ! r) = w"
  have "\<forall>r<length pl. length (pl ! r) = w" using rows len by simp
  then have rs: "\<forall>row\<in>set pl. length row = w" by (simp only: rows_of)
  define X where "X = roll1 a (map (roll1 b) pl)"
  have l: "length X = h" using len by (simp add: X_def)
  have "\<forall>row\<in>set X. length row = w"
    using rs by (auto simp: X_def roll1_set)
  then have "\<forall>r<length X. length (X ! r) = w" by (simp only: rows_of)
  then show "length X = h \<and> (\<forall>r<h. length (X ! r) = w)" using l by simp
qed

lemma shift_facts:
  "grad (random_circular_spatial_shift t a b u) = None"
  "requires_grad (random_circular_spatial_shift t a b u)"
  "has_shape (data t) n c h w \<Longrightarrow> has_shape (data (random_circular_spatial_shift t a b u)) n c h w"
  by (simp_all add: random_circular_spatial_shift_def Let_def roll_hw_shape)

lemma iter_loop_shape:
  assumes "iter_loop env octave idx t = Inr t'" and "has_shape (data t) 1 c h w"
  shows "has_shape (data t') 1 c h w \<and> (idx \<noteq> [] \<longrightarrow> c = 3 \<and> 4 < h \<and> 4 < w)"
  using assms
proof (induction idx arbitrary: t)
  case Nil
  then show ?case by simp
next
  case (Cons i rest)
  obtain a b where ab: "env_randint env octave i = (a, b)" by (cases "env_randint env octave i")
  define t1 where "t1 = random_circular_spatial_shift t a b False"
  from Cons.prems(1) obtain t2 where t2: "gradient_ascent (env_net env) t1 lr_dream i = Inr t2"
    and rest: "iter_loop env octave rest (random_circular_spatial_shift t2 a b True) = Inr t'"
    by (auto simp: ab t1_def split: sum.splits)
  have s1: "has_shape (data t1) 1 c h w" unfolding t1_def by (rule shift_facts(3) [OF Cons.prems(2)])
  have g1: "grad t1 = None" unfolding t1_def by (rule shift_facts(1))
  from gradient_ascent_shape [OF t2 s1 g1]
  have s2: "has_shape (data t2) 1 c h w" and need: "c = 3" "4 < h" "4 < w" by blast+
  have "has_shape (data (random_circular_spatial_shift t2 a b True)) 1 c h w"
    by (rule shift_facts(3) [OF s2])
  from Cons.IH [OF rest this] show ?case using need by simp
qed

lemma iter_loop_returns:
  assumes "total_network (env_net env)" and "has_shape (data t) 1 3 h w" and "4 < h" "4 < w"
  shows "\<exists>t'. iter_loop env octave idx t = Inr t'"
  using assms(2)
proof (induction idx arbitrary: t)
  case Nil
  then show ?case by simp
next
  case (Cons i rest)
  obtain a b where ab: "env_randint env octave i = (a, b)" by (cases "env_randint env octave i")
  define t1 where "t1 = random_circular_spatial_shift t a b False"
  have s1: "has_shape (data t1) 1 3 h w" unfolding t1_def by (rule shift_facts(3) [OF Cons.prems])
  have g1: "grad t1 = None" "requires_grad t1" unfolding t1_def by (rule shift_facts)+
  obtain out layer where fwd: "net_forward (env_net env) (data t1) = Inr out"
      "out ''inception4c'' = Some layer"
    using assms(1) unfolding total_network_def by blast
  obtain t2 where t2: "gradient_ascent (env_net env) t1 lr_dream i = Inr t2"
    and s2: "has_shape (data t2) 1 3 h w"
    using gradient_ascent_returns [OF s1 assms(3,4) g1(2,1) fwd] by blast
  have "has_shape (data (random_circular_spatial_shift t2 a b True)) 1 3 h w"
    by (rule shift_facts(3) [OF s2])
  from Cons.IH [OF this] obtain t' where
    "iter_loop env octave rest (random_circular_spatial_shift t2 a b True) = Inr t'" by blast
  then show ?case using t2 by (simp add: ab t1_def [symmetric])
qed

section \<open>Shapes of images\<close>

lemma is_image_nth:
  "is_image img h w c \<longleftrightarrow>
     length img = h \<and>
     (\<forall>r<h. length (img ! r) = w \<and> (\<forall>j<w. length (img ! r ! j) = c))"
  unfolding is_image_def list_all_length by auto

lemma is_imageI:
  assumes "length img = h"
    and "\<And>r. r < h \<Longrightarrow> length (img ! r) = w"
    and "\<And>r j. r < h \<Longrightarrow> j < w \<Longrightarrow> length (img ! r ! j) = c"
  shows "is_image img h w c"
  using assms unfolding is_image_nth by blast

lemma is_imageD:
  assumes "is_image img h w c"
  shows "length img = h"
    and "r < h \<Longrightarrow> length (img ! r) = w"
    and "r < h \<Longrightarrow> j < w \<Longrightarrow> length (img ! r ! j) = c"
  using assms unfolding is_image_nth by blast+

lemma is_image_height: "is_image img h w c \<Longrightarrow> height img = h"
  by (simp add: is_image_nth height_def)

lemma is_image_width:
  assumes "is_image img h w c" "0 < h"
  shows "width img = w"
proof -
  from assms obtain row rest where img: "img = row # rest"
    by (cases img) (auto simp: is_image_nth)
  have "length (img ! 0) = w" using is_imageD(2) [OF assms(1), of 0] assms(2) by simp
  then show ?thesis by (simp add: img width_def)
qed

lemma is_image_channels:
  assumes "is_image img h w c" "0 < h" "0 < w"
  shows "channels img = c"
proof -
  from assms obtain row rest where img: "img = row # rest"
    by (cases img) (auto simp: is_image_nth)
  have r0: "length (img ! 0) = w" using is_imageD(2) [OF assms(1), of 0] assms(2) by simp
  then obtain px more where row: "row = px # more"
    using assms(3) img by (cases row) auto
  have "length (img ! 0 ! 0) = c" using is_imageD(3) [OF assms(1), of 0 0] assms(2,3) by simp
  then show ?thesis by (simp add: img row channels_def)
qed

lemma resample_image: "is_image (resample ip src h w) h w (channels src)"
  by (rule is_imageI) (simp_all add: resample_def)

lemma cv_resize_sized:
  assumes "cv_resize ip src (int w, int h) 0 0 = Inr d"
  shows "0 < h \<and> 0 < w \<and> 0 < height src \<and> 0 < width src \<and> d = resample ip src h w"
  using assms by (auto simp: cv_resize_def split: if_splits)

lemma cv_resize_sized_returns:
  assumes "0 < h" "0 < w" "0 < height src" "0 < width src"
  shows "cv_resize ip src (int w, int h) 0 0 = Inr (resample ip src h w)"
  using assms by (simp add: cv_resize_def)

lemma cv_resize_scaled:
  assumes "cv_resize ip src (0, 0) fx fy = Inr d"
  shows "\<exists>h w. 0 < h \<and> 0 < w \<and> 0 < height src \<and> 0 < width src \<and> d = resample ip src h w"
proof -
  define w where "w = cv_round (real (width src) * fx)"
  define h where "h = cv_round (real (height src) * fy)"
  from assms have "0 < w" "0 < h" "d = resample ip src (nat h) (nat w)"
      "0 < height src" "0 < width src"
    by (auto simp: cv_resize_def Let_def w_def h_def split: if_splits)
  then have "0 < nat h \<and> 0 < nat w \<and> 0 < height src \<and> 0 < width src \<and>
      d = resample ip src (nat h) (nat w)" by simp
  then show ?thesis by blast
qed

lemma image_map2_shape:
  assumes a: "is_image a h w c" and b: "is_image b h w c"
  shows "is_image (map2 (map2 (map2 f)) a b) h w c"
proof (rule is_imageI)
  show "length (map2 (map2 (map2 f)) a b) = h"
    using is_imageD(1) [OF a] is_imageD(1) [OF b] by simp
next
  fix r assume "r < h"
  then show "length (map2 (map2 (map2 f)) a b ! r) = w"
    using is_imageD(1,2) [OF a] is_imageD(1,2) [OF b] by simp
next
  fix r j assume "r < h" "j < w"
  then show "length (map2 (map2 (map2 f)) a b ! r ! j) = c"
    using is_imageD [OF a] is_imageD [OF b] by simp
qed

lemma image_add_shape:
  "is_image a h w c \<Longrightarrow> is_image b h w c \<Longrightarrow> is_image (image_add a b) h w c"
  unfolding image_add_def by (rule image_map2_shape)

lemma image_sub_shape:
  "is_image a h w c \<Longrightarrow> is_image b h w c \<Longrightarrow> is_image (image_sub a b) h w c"
  unfolding image_sub_def by (rule image_map2_shape)

lemma image_zeros_like_shape:
  assumes a: "is_image a h w c"
  shows "is_image (image_zeros_like a) h w c"
proof (rule is_imageI)
  show "length (image_zeros_like a) = h"
    using is_imageD(1) [OF a] by (simp add: image_zeros_like_def)
next
  fix r assume "r < h"
  then show "length (image_zeros_like a ! r) = w"
    using is_imageD(1,2) [OF a] by (simp add: image_zeros_like_def)
next
  fix r j assume "r < h" "j < w"
  then show "length (image_zeros_like a ! r ! j) = c"
    using is_imageD [OF a] by (simp add: image_zeros_like_def)
qed

lemma to_chw_shape:
  assumes a: "is_image img h w c" and pos: "0 < h" "0 < w"
  shows "has_shape [to_chw img] 1 c h w"
proof (rule has_shapeI)
  show "length [to_chw img] = 1" by simp
next
  fix b :: nat assume "b < 1"
  then show "length ([to_chw img] ! b) = c"
    using is_image_channels [OF a pos] by (simp add: to_chw_def)
next
  fix b ch :: nat assume "b < 1" "ch < c"
  then show "length ([to_chw img] ! b ! ch) = h"
    using is_image_channels [OF a pos] is_imageD(1) [OF a] by (simp add: to_chw_def)
next
  fix b ch r :: nat assume "b < 1" "ch < c" "r < h"
  then show "length ([to_chw img] ! b ! ch ! r) = w"
    using is_image_channels [OF a pos] is_imageD(1,2) [OF a] by (simp add: to_chw_def)
qed

lemma to_hwc_shape:
  assumes t: "has_shape [chw] 1 c h w" and pos: "0 < c"
  shows "is_image (to_hwc chw) h w c"
proof -
  have len: "length chw = c" using has_shapeD(2) [OF t, of 0] by simp
  then obtain plane rest where chw: "chw = plane # rest" using pos by (cases chw) auto
  have ph: "length plane = h" using has_shapeD(3) [OF t, of 0 0] pos by (simp add: chw)
  show ?thesis
  proof (cases "h = 0")
    case True
    then show ?thesis using ph by (simp add: to_hwc_def chw is_image_nth)
  next
    case False
    then have "length (plane ! 0) = w"
      using has_shapeD(4) [OF t, of 0 0 0] pos by (simp add: chw)
    then have pw: "plane_width plane = w"
      using False ph by (cases plane) (simp_all add: plane_width_def)
    have len': "Suc (length rest) = c" using len by (simp add: chw)
    show ?thesis
      by (rule is_imageI) (simp_all add: to_hwc_def chw ph pw len')
  qed
qed

end
